theory Spec2Isabelle
  imports Main
begin

section \<open>The filesystem\<close>

text \<open>
  The helpers of \<^verbatim>\<open>files.py\<close> act on the filesystem through \<^verbatim>\<open>os\<close> and
  \<^verbatim>\<open>shutil\<close>. The filesystem is a tree of regular files (with their content) and
  directories (with their entries, in enumeration order). Symbolic links are not modelled.
  The root of the tree is both \<^verbatim>\<open>/\<close> and the working directory.
\<close>

datatype fsnode = File string | Dir "(string \<times> fsnode) list"

fun lookup :: "fsnode \<Rightarrow> string list \<Rightarrow> fsnode option" where
  "lookup n [] = Some n"
| "lookup (File _) (c # cs) = None"
| "lookup (Dir kids) (c # cs) =
     (case map_of kids c of None \<Rightarrow> None | Some k \<Rightarrow> lookup k cs)"

text \<open>Every entry name that occurs anywhere in the tree.\<close>

fun names :: "fsnode \<Rightarrow> string set" where
  "names (File _) = {}"
| "names (Dir kids) = fst ` set kids \<union> (\<Union>k \<in> snd ` set kids. names k)"

text \<open>\<^verbatim>\<open>p.split(s)\<close> for a one-character separator.\<close>

fun split_sep :: "char \<Rightarrow> string \<Rightarrow> string list" where
  "split_sep s [] = [[]]"
| "split_sep s (c # cs) =
     (if c = s then [] # split_sep s cs
      else (c # hd (split_sep s cs)) # tl (split_sep s cs))"

text \<open>
  Path resolution, one component at a time, from the root: an empty component or
  \<^verbatim>\<open>.\<close> stays, \<^verbatim>\<open>..\<close> goes up, a name goes down; each of them needs the
  current node to be a directory. The result is the list of names from the root.
\<close>

fun step :: "fsnode \<Rightarrow> string list option \<Rightarrow> string \<Rightarrow> string list option" where
  "step fs None c = None"
| "step fs (Some cur) c =
     (case lookup fs cur of
        Some (Dir kids) \<Rightarrow>
          if c = [] \<or> c = ''.'' then Some cur
          else if c = ''..'' then Some (butlast cur)
          else if map_of kids c \<noteq> None then Some (cur @ [c])
          else None
      | _ \<Rightarrow> None)"

definition resolve :: "fsnode \<Rightarrow> string \<Rightarrow> string list option" where
  "resolve fs p =
     (if p = [] then None else foldl (step fs) (Some []) (split_sep (CHR ''/'') p))"

text \<open>\<^verbatim>\<open>os.path.exists\<close>\<close>

definition path_exists :: "fsnode \<Rightarrow> string \<Rightarrow> bool" where
  "path_exists fs p = (resolve fs p \<noteq> None)"

text \<open>
  \<^verbatim>\<open>os.path.splitext\<close>: the extension starts at the last dot of the last component,
  unless only dots precede it there; it keeps its dot.
\<close>

definition splitext :: "string \<Rightarrow> string \<times> string" where
  "splitext p =
     (let b = rev (takeWhile (\<lambda>c. c \<noteq> CHR ''/'') (rev p));
          e = rev (takeWhile (\<lambda>c. c \<noteq> CHR ''.'') (rev b));
          h = take (length b - length e - 1) b
      in if CHR ''.'' \<in> set b \<and> (\<exists>c \<in> set h. c \<noteq> CHR ''.'')
         then (take (length p - length e - 1) p, CHR ''.'' # e)
         else (p, []))"

text \<open>\<^verbatim>\<open>str(n)\<close> for a natural number: its decimal digits.\<close>

definition digit :: "nat \<Rightarrow> char" where
  "digit d = ''0123456789'' ! d"

fun str_nat :: "nat \<Rightarrow> string" where
  "str_nat n = (if n < 10 then [digit n] else str_nat (n div 10) @ [digit (n mod 10)])"

declare str_nat.simps [simp del]

section \<open>\<^verbatim>\<open>get_unique_filename\<close>\<close>

text \<open>
  \<^verbatim>\<open>
  def get_unique_filename(filepath):
      name, ext = os.path.splitext(filepath)
      suffix = 0
      if os.path.exists(filepath):
          while True:
              suffix += 1
              filepath = f"{name}({suffix}).{ext}"
              if not os.path.exists(filepath):
                  return filepath
      else:
          return filepath
  \<close>
  The function is the same in both variants of \<^verbatim>\<open>files.py\<close>. The f-string is
  \<open>candidate\<close>; the loop is \<open>unique_loop\<close>, called with the value of
  \<^verbatim>\<open>suffix\<close> before the increment.
\<close>

definition candidate :: "string \<Rightarrow> string \<Rightarrow> nat \<Rightarrow> string" where
  "candidate name ext suffix = name @ ''('' @ str_nat suffix @ '').'' @ ext"

text \<open>
  The loop ends because the tree is finite and the candidates are pairwise different:
  a candidate that exists has a component, the one with the counter, among the names of
  the tree.
\<close>

definition cand_comp :: "string \<Rightarrow> string \<Rightarrow> nat \<Rightarrow> string" where
  "cand_comp name ext n =
     last (split_sep (CHR ''/'') name) @ ''('' @ str_nat n @ '').'' @ hd (split_sep (CHR ''/'') ext)"

lemma finite_names: "finite (names fs)"
  by (induction fs rule: names.induct) auto

lemma lookup_kids_names:
  "lookup fs cur = Some (Dir kids) \<Longrightarrow> fst ` set kids \<subseteq> names fs"
proof (induction fs cur rule: lookup.induct)
  case (3 ks c cs)
  then obtain k where k: "map_of ks c = Some k" "lookup k cs = Some (Dir kids)"
    by (auto split: option.splits)
  from k(1) have "(c, k) \<in> set ks" by (rule map_of_SomeD)
  then have "names k \<subseteq> names (Dir ks)" by force
  with 3 k show ?case by auto
qed auto

lemma foldl_step_None: "foldl (step fs) None cs = None"
  by (induction cs) auto

lemma foldl_step_names:
  "foldl (step fs) st cs \<noteq> None \<Longrightarrow> c \<in> set cs \<Longrightarrow> c \<noteq> [] \<Longrightarrow> c \<noteq> ''.'' \<Longrightarrow> c \<noteq> ''..''
     \<Longrightarrow> c \<in> names fs"
proof (induction cs arbitrary: st)
  case Nil
  then show ?case by simp
next
  case (Cons a cs)
  show ?case
  proof (cases "c = a")
    case True
    from Cons.prems(1) have s: "step fs st a \<noteq> None"
      using foldl_step_None by (metis foldl_Cons)
    then obtain cur where st: "st = Some cur" by (cases st) auto
    with s obtain kids where l: "lookup fs cur = Some (Dir kids)"
      by (auto split: option.splits fsnode.splits)
    with s st True Cons.prems have "map_of kids c \<noteq> None"
      by (auto split: if_splits)
    then have "c \<in> fst ` set kids" by (metis map_of_eq_None_iff)
    with lookup_kids_names[OF l] show ?thesis by auto
  next
    case False
    with Cons show ?thesis by auto
  qed
qed

lemma split_sep_nonempty [simp]: "split_sep s p \<noteq> []"
  by (induction p) auto

lemma split_sep_append:
  "split_sep s (a @ b) =
     butlast (split_sep s a) @ [last (split_sep s a) @ hd (split_sep s b)] @ tl (split_sep s b)"
proof (induction a)
  case Nil
  then show ?case by (simp add: hd_Cons_tl)
next
  case (Cons c a)
  obtain w ws where A: "split_sep s a = w # ws"
    by (cases "split_sep s a") auto
  show ?case
  proof (cases ws)
    case Nil
    with A Cons show ?thesis by simp
  next
    case (Cons v vs)
    with A Cons.IH show ?thesis by simp
  qed
qed

lemma split_sep_no_sep: "s \<notin> set p \<Longrightarrow> split_sep s p = [p]"
  by (induction p) auto

lemma str_nat_small: "n < 10 \<Longrightarrow> str_nat n = [digit n]"
  by (subst str_nat.simps) simp

lemma str_nat_big: "\<not> n < 10 \<Longrightarrow> str_nat n = str_nat (n div 10) @ [digit (n mod 10)]"
  by (subst str_nat.simps) simp

lemma digit_cases:
  "d < 10 \<Longrightarrow> d = 0 \<or> d = 1 \<or> d = 2 \<or> d = 3 \<or> d = 4 \<or> d = 5 \<or> d = 6 \<or> d = 7 \<or> d = 8 \<or> d = (9::nat)"
  by arith

lemma digit_not_slash: "d < 10 \<Longrightarrow> digit d \<noteq> CHR ''/''"
  using digit_cases[of d] by (auto simp: digit_def)

lemma digit_inj: "d < 10 \<Longrightarrow> e < 10 \<Longrightarrow> digit d = digit e \<Longrightarrow> d = e"
  using digit_cases[of d] digit_cases[of e] by (auto simp: digit_def)

lemma str_nat_no_slash: "CHR ''/'' \<notin> set (str_nat n)"
proof (induction n rule: str_nat.induct)
  case (1 n)
  show ?case
  proof (cases "n < 10")
    case True
    then show ?thesis using digit_not_slash[of n] by (simp add: str_nat_small)
  next
    case False
    then have "CHR ''/'' \<notin> set (str_nat (n div 10))" using 1 by simp
    moreover have "digit (n mod 10) \<noteq> CHR ''/''" by (rule digit_not_slash) simp
    ultimately show ?thesis using False by (simp add: str_nat_big)
  qed
qed

lemma str_nat_nonempty: "str_nat n \<noteq> []"
  by (cases "n < 10") (simp_all add: str_nat_small str_nat_big)

lemma str_nat_inj: "str_nat n = str_nat m \<Longrightarrow> n = m"
proof (induction n arbitrary: m rule: str_nat.induct)
  case (1 n)
  show ?case
  proof (cases "n < 10")
    case n: True
    show ?thesis
    proof (cases "m < 10")
      case True
      with n "1.prems" show ?thesis by (simp add: digit_inj str_nat_small)
    next
      case False
      have "str_nat m = str_nat (m div 10) @ [digit (m mod 10)]"
        using False by (rule str_nat_big)
      moreover have "str_nat n = [digit n]" using n by (rule str_nat_small)
      ultimately show ?thesis using "1.prems" str_nat_nonempty[of "m div 10"] by simp
    qed
  next
    case n: False
    have en: "str_nat n = str_nat (n div 10) @ [digit (n mod 10)]"
      using n by (rule str_nat_big)
    show ?thesis
    proof (cases "m < 10")
      case True
      then have "str_nat m = [digit m]" by (rule str_nat_small)
      with en "1.prems" str_nat_nonempty[of "n div 10"] show ?thesis by simp
    next
      case False
      have em: "str_nat m = str_nat (m div 10) @ [digit (m mod 10)]"
        using False by (rule str_nat_big)
      from en em "1.prems" have a: "str_nat (n div 10) = str_nat (m div 10)"
        and b: "digit (n mod 10) = digit (m mod 10)" by auto
      from "1.IH"[OF n a] have "n div 10 = m div 10" .
      moreover from b have "n mod 10 = m mod 10" by (intro digit_inj) auto
      ultimately show ?thesis by (metis div_mult_mod_eq)
    qed
  qed
qed

lemma cand_comp_in_split:
  "cand_comp name ext n \<in> set (split_sep (CHR ''/'') (candidate name ext n))"
proof -
  have m: "split_sep (CHR ''/'') (''('' @ str_nat n @ '').'') = [''('' @ str_nat n @ '').'']"
    by (rule split_sep_no_sep) (use str_nat_no_slash in auto)
  have "candidate name ext n = name @ ((''('' @ str_nat n @ '').'') @ ext)"
    by (simp add: candidate_def)
  then show ?thesis
    unfolding cand_comp_def
    by (simp only: split_sep_append[of _ name] split_sep_append[of _ "''('' @ str_nat n @ '').''" ext] m) simp
qed

lemma cand_comp_inj: "inj (cand_comp name ext)"
  by (rule injI) (auto simp: cand_comp_def dest: str_nat_inj)

lemma cand_comp_plain:
  "cand_comp name ext n \<noteq> [] \<and> cand_comp name ext n \<noteq> ''.'' \<and> cand_comp name ext n \<noteq> ''..''"
proof -
  have "CHR ''('' \<in> set (cand_comp name ext n)" by (simp add: cand_comp_def)
  then show ?thesis by auto
qed

lemma candidate_exists_names:
  assumes "path_exists fs (candidate name ext n)"
  shows "cand_comp name ext n \<in> names fs"
proof -
  from assms have "foldl (step fs) (Some []) (split_sep (CHR ''/'') (candidate name ext n)) \<noteq> None"
    by (auto simp: path_exists_def resolve_def split: if_splits)
  then show ?thesis
    using cand_comp_in_split cand_comp_plain by (intro foldl_step_names) auto
qed

lemma finite_existing_candidates: "finite {n. path_exists fs (candidate name ext n)}"
proof -
  have "finite (cand_comp name ext -` names fs)"
    by (intro finite_vimageI finite_names cand_comp_inj)
  moreover have "{n. path_exists fs (candidate name ext n)} \<subseteq> cand_comp name ext -` names fs"
    using candidate_exists_names by auto
  ultimately show ?thesis by (rule rev_finite_subset)
qed

function unique_loop :: "fsnode \<Rightarrow> string \<Rightarrow> string \<Rightarrow> nat \<Rightarrow> string" where
  "unique_loop fs name ext suffix =
     (let suffix' = suffix + 1; filepath = candidate name ext suffix'
      in if \<not> path_exists fs filepath then filepath
         else unique_loop fs name ext suffix')"
  by pat_completeness auto
termination
proof (relation "measure (\<lambda>(fs, name, ext, n). card {m. n < m \<and> path_exists fs (candidate name ext m)})")
  show "wf (measure (\<lambda>(fs, name, ext, n). card {m. n < m \<and> path_exists fs (candidate name ext m)}))"
    by simp
next
  fix fs name ext and suffix suffix' :: nat and filepath
  assume s: "suffix' = suffix + 1" and f: "filepath = candidate name ext suffix'"
    and e: "\<not> \<not> path_exists fs filepath"
  let ?A = "\<lambda>n. {m. n < m \<and> path_exists fs (candidate name ext m)}"
  have fin: "finite (?A suffix)"
    using finite_existing_candidates[of fs name ext] by (rule rev_finite_subset) auto
  have "?A suffix' \<subset> ?A suffix"
    using s f e by auto
  then have "card (?A suffix') < card (?A suffix)"
    by (rule psubset_card_mono[OF fin])
  then show "((fs, name, ext, suffix'), fs, name, ext, suffix)
       \<in> measure (\<lambda>(fs, name, ext, n). card {m. n < m \<and> path_exists fs (candidate name ext m)})"
    by simp
qed

declare unique_loop.simps [simp del]

definition get_unique_filename :: "fsnode \<Rightarrow> string \<Rightarrow> string" where
  "get_unique_filename fs filepath =
     (let (name, ext) = splitext filepath
      in if path_exists fs filepath then unique_loop fs name ext 0 else filepath)"


lemma unique_loop_fresh: "\<not> path_exists fs (unique_loop fs name ext n)"
proof (induction fs name ext n rule: unique_loop.induct)
  case (1 fs name ext suffix)
  show ?case
  proof (cases "path_exists fs (candidate name ext (suffix + 1))")
    case True
    with 1[OF refl refl] show ?thesis by (subst unique_loop.simps) simp
  next
    case False
    then show ?thesis by (subst unique_loop.simps) simp
  qed
qed

text \<open>The loop returns the candidate with the least counter above the start that is unused.\<close>

lemma unique_loop_least:
  "\<exists>n > s. unique_loop fs name ext s = candidate name ext n
      \<and> \<not> path_exists fs (candidate name ext n)
      \<and> (\<forall>m. s < m \<and> m < n \<longrightarrow> path_exists fs (candidate name ext m))"
proof (induction fs name ext s rule: unique_loop.induct)
  case (1 fs name ext suffix)
  show ?case
  proof (cases "path_exists fs (candidate name ext (suffix + 1))")
    case True
    have "\<exists>n > suffix + 1. unique_loop fs name ext (suffix + 1) = candidate name ext n
      \<and> \<not> path_exists fs (candidate name ext n)
      \<and> (\<forall>m. suffix + 1 < m \<and> m < n \<longrightarrow> path_exists fs (candidate name ext m))"
      using 1[OF refl refl] True by simp
    then obtain n where n: "n > suffix + 1"
      "unique_loop fs name ext (suffix + 1) = candidate name ext n"
      "\<not> path_exists fs (candidate name ext n)"
      "\<forall>m. suffix + 1 < m \<and> m < n \<longrightarrow> path_exists fs (candidate name ext m)"
      by auto
    have u: "unique_loop fs name ext suffix = unique_loop fs name ext (suffix + 1)"
      using True by (subst unique_loop.simps) simp
    have "\<forall>m. suffix < m \<and> m < n \<longrightarrow> path_exists fs (candidate name ext m)"
    proof (intro allI impI)
      fix m assume "suffix < m \<and> m < n"
      then have "m = suffix + 1 \<or> (suffix + 1 < m \<and> m < n)" by arith
      with True n(4) show "path_exists fs (candidate name ext m)" by auto
    qed
    with n u show ?thesis by (intro exI[of _ n]) auto
  next
    case False
    then have "unique_loop fs name ext suffix = candidate name ext (suffix + 1)"
      by (subst unique_loop.simps) simp
    with False show ?thesis by (intro exI[of _ "suffix + 1"]) auto
  qed
qed

text \<open>
  Claim C7. For every path \<open>p\<close> that does not exist, \<open>get_unique_filename\<close> returns
  \<open>p\<close> unchanged; for every path \<open>p\<close> that exists, it returns a path that does not
  exist in the filesystem it was checked against, and that differs from \<open>p\<close>. The
  function is total, so it returns in both cases.
\<close>

theorem get_unique_filename_fresh:
  "(\<not> path_exists fs p \<longrightarrow> get_unique_filename fs p = p) \<and>
   (path_exists fs p \<longrightarrow>
      \<not> path_exists fs (get_unique_filename fs p) \<and> get_unique_filename fs p \<noteq> p)"
proof -
  have "\<not> path_exists fs (get_unique_filename fs p)" if "path_exists fs p"
    using that unique_loop_fresh by (simp add: get_unique_filename_def split: prod.splits)
  then show ?thesis
    by (auto simp: get_unique_filename_def split: prod.splits)
qed

text \<open>The collision scenario: \<^verbatim>\<open>root/x.txt\<close> and \<^verbatim>\<open>root/sub/x.txt\<close>.\<close>

definition fs_collision :: fsnode where
  "fs_collision =
     Dir [(''root'', Dir [(''x.txt'', File ''top''), (''sub'', Dir [(''x.txt'', File ''nested'')])])]"

lemma fs_collision_x_exists: "path_exists fs_collision ''root/x.txt''"
  by code_simp
lemma fs_collision_y_missing: "\<not> path_exists fs_collision ''root/y.txt''"
  by code_simp
lemma fs_collision_unique_x: "get_unique_filename fs_collision ''root/x.txt'' = ''root/x(1)..txt''"
  by code_simp

theorem get_unique_filename_fresh_witness:
  "\<not> path_exists fs_collision ''root/y.txt'' \<and>
   get_unique_filename fs_collision ''root/y.txt'' = ''root/y.txt'' \<and>
   path_exists fs_collision ''root/x.txt'' \<and>
   \<not> path_exists fs_collision (get_unique_filename fs_collision ''root/x.txt'') \<and>
   get_unique_filename fs_collision ''root/x.txt'' \<noteq> ''root/x.txt''"
  using get_unique_filename_fresh[of fs_collision "''root/y.txt''"]
    get_unique_filename_fresh[of fs_collision "''root/x.txt''"] fs_collision_x_exists fs_collision_y_missing
  by simp


text \<open>
  Claim C5. The claim has the counter inserted immediately before the extension, so that
  the first candidate for \<^verbatim>\<open>x.txt\<close> is \<^verbatim>\<open>x(1).txt\<close>. The extension that
  \<^verbatim>\<open>os.path.splitext\<close> returns keeps its dot and the f-string adds another: where
  \<^verbatim>\<open>x.txt\<close> exists and no candidate does, the code returns \<^verbatim>\<open>x(1)..txt\<close>.
\<close>

definition fs_single :: fsnode where
  "fs_single = Dir [(''x.txt'', File ''data'')]"

theorem get_unique_filename_double_dot:
  "get_unique_filename fs_single ''x.txt'' = ''x(1)..txt''
   \<and> get_unique_filename fs_single ''x.txt'' \<noteq> ''x(1).txt''"
  by code_simp

section \<open>Moving files: \<^verbatim>\<open>os.rename\<close>, \<^verbatim>\<open>shutil.move\<close>, \<^verbatim>\<open>shutil.rmtree\<close>\<close>

text \<open>
  A call either completes or raises; the exception raised, if any, is returned beside the
  state the call leaves. The state is the filesystem and the lines printed so far.
\<close>

datatype error =
    FileNotFoundError | NotADirectoryError | IsADirectoryError | OSError
  | ShutilError | NameError | AttributeError | KeyError | TypeError | AssertionError
  | ValueError | IndexError

record state =
  fs :: fsnode
  out :: "string list"

text \<open>\<^verbatim>\<open>os.path.join\<close> of two parts (POSIX).\<close>

definition join :: "string \<Rightarrow> string \<Rightarrow> string" where
  "join a b =
     (if b \<noteq> [] \<and> hd b = CHR ''/'' then b
      else if a = [] \<or> last a = CHR ''/'' then a @ b
      else a @ ''/'' @ b)"

definition is_dir_node :: "fsnode option \<Rightarrow> bool" where
  "is_dir_node n = (case n of Some (Dir _) \<Rightarrow> True | _ \<Rightarrow> False)"

definition node_at :: "fsnode \<Rightarrow> string \<Rightarrow> fsnode option" where
  "node_at t p = (case resolve t p of None \<Rightarrow> None | Some cur \<Rightarrow> lookup t cur)"

definition isdir :: "fsnode \<Rightarrow> string \<Rightarrow> bool" where
  "isdir t p = is_dir_node (node_at t p)"

text \<open>
  Where a path points, whether or not its last component exists: the directory holding it
  must exist.
\<close>

definition locate :: "fsnode \<Rightarrow> string \<Rightarrow> string list option" where
  "locate t p =
     (if p = [] then None
      else let cs = split_sep (CHR ''/'') p; c = last cs
           in case foldl (step t) (Some []) (butlast cs) of
                None \<Rightarrow> None
              | Some cur \<Rightarrow>
                  if \<not> is_dir_node (lookup t cur) then None
                  else if c = [] \<or> c = ''.'' then Some cur
                  else if c = ''..'' then Some (butlast cur)
                  else Some (cur @ [c]))"

text \<open>Rewriting the entries of the directory at a resolved path.\<close>

fun modify :: "((string \<times> fsnode) list \<Rightarrow> (string \<times> fsnode) list) \<Rightarrow> string list \<Rightarrow> fsnode \<Rightarrow> fsnode" where
  "modify f cs (File x) = File x"
| "modify f [] (Dir kids) = Dir (f kids)"
| "modify f (c # cs) (Dir kids) =
     Dir (map (\<lambda>nk. if fst nk = c then (fst nk, modify f cs (snd nk)) else nk) kids)"

definition unlink :: "string list \<Rightarrow> fsnode \<Rightarrow> fsnode" where
  "unlink p t = (if p = [] then t else modify (filter (\<lambda>nk. fst nk \<noteq> last p)) (butlast p) t)"

definition put :: "string list \<Rightarrow> fsnode \<Rightarrow> fsnode \<Rightarrow> fsnode" where
  "put p n t =
     (if p = [] then t
      else modify (\<lambda>kids. if map_of kids (last p) = None then kids @ [(last p, n)]
                          else map (\<lambda>nk. if fst nk = last p then (fst nk, n) else nk) kids)
             (butlast p) t)"

text \<open>
  \<^verbatim>\<open>os.rename\<close> (POSIX): a file replaces an existing file, a directory replaces an
  existing empty directory, nothing moves into its own subtree.
\<close>

definition os_rename :: "fsnode \<Rightarrow> string \<Rightarrow> string \<Rightarrow> error + fsnode" where
  "os_rename t src dst =
     (case resolve t src of
        None \<Rightarrow> Inl FileNotFoundError
      | Some sp \<Rightarrow>
         (case locate t dst of
            None \<Rightarrow> Inl FileNotFoundError
          | Some dp \<Rightarrow>
             (case lookup t sp of
                None \<Rightarrow> Inl FileNotFoundError
              | Some (File x) \<Rightarrow>
                 (case lookup t dp of
                    Some (Dir _) \<Rightarrow> Inl IsADirectoryError
                  | _ \<Rightarrow> if sp = dp then Inr t else Inr (put dp (File x) (unlink sp t)))
              | Some (Dir ks) \<Rightarrow>
                 (if sp = [] \<or> take (length sp) dp = sp \<and> sp \<noteq> dp then Inl OSError
                  else case lookup t dp of
                    Some (File _) \<Rightarrow> Inl NotADirectoryError
                  | Some (Dir ds) \<Rightarrow>
                      if sp = dp then Inr t
                      else if ds = [] then Inr (put dp (Dir ks) (unlink sp t))
                      else Inl OSError
                  | None \<Rightarrow> Inr (put dp (Dir ks) (unlink sp t))))))"

definition basename :: "string \<Rightarrow> string" where
  "basename p = last (split_sep (CHR ''/'') p)"

definition rstrip_sep :: "string \<Rightarrow> string" where
  "rstrip_sep p = rev (dropWhile (\<lambda>c. c = CHR ''/'') (rev p))"

text \<open>
  \<^verbatim>\<open>shutil.move\<close>: into \<^verbatim>\<open>dst\<close> when that is a directory (an error when the name
  is taken there), and otherwise a rename onto \<^verbatim>\<open>dst\<close>, which replaces an existing
  file. Its fallback to copy-and-delete across volumes is not modelled.
\<close>

definition shutil_move :: "fsnode \<Rightarrow> string \<Rightarrow> string \<Rightarrow> error + fsnode" where
  "shutil_move t src dst =
     (if isdir t dst then
        (if resolve t src \<noteq> None \<and> resolve t src = resolve t dst then os_rename t src dst
         else let real_dst = join dst (basename (rstrip_sep src))
              in if path_exists t real_dst then Inl ShutilError
                 else os_rename t src real_dst)
      else os_rename t src dst)"

definition scandir :: "fsnode \<Rightarrow> string \<Rightarrow> (error + (string \<times> fsnode) list)" where
  "scandir t p =
     (case node_at t p of
        None \<Rightarrow> Inl FileNotFoundError
      | Some (File _) \<Rightarrow> Inl NotADirectoryError
      | Some (Dir kids) \<Rightarrow> Inr kids)"

definition listdir :: "fsnode \<Rightarrow> string \<Rightarrow> error + string list" where
  "listdir t p = (case scandir t p of Inl e \<Rightarrow> Inl e | Inr kids \<Rightarrow> Inr (map fst kids))"

definition rmtree :: "fsnode \<Rightarrow> string \<Rightarrow> error + fsnode" where
  "rmtree t p =
     (case scandir t p of
        Inl e \<Rightarrow> Inl e
      | Inr _ \<Rightarrow> (case resolve t p of None \<Rightarrow> Inl FileNotFoundError
                 | Some cur \<Rightarrow> if cur = [] then Inl OSError else Inr (unlink cur t)))"

text \<open>A \<^verbatim>\<open>for\<close> loop whose body may raise: the first exception ends it.\<close>

fun for_each :: "('s \<Rightarrow> 'a \<Rightarrow> error option \<times> 's) \<Rightarrow> 'a list \<Rightarrow> 's \<Rightarrow> error option \<times> 's" where
  "for_each f [] s = (None, s)"
| "for_each f (x # xs) s =
     (case f s x of (Some e, s') \<Rightarrow> (Some e, s') | (None, s') \<Rightarrow> for_each f xs s')"

section \<open>\<^verbatim>\<open>move_files_to_top\<close>\<close>

text \<open>
  \<^verbatim>\<open>os.walk(top)\<close>, top-down: a stack of directories still to visit. A directory is
  listed when it is popped, so the listing sees what the loop body did before; a directory
  that cannot be listed is skipped. The body runs on \<^verbatim>\<open>(root, dirs, files)\<close>, then
  the subdirectories are pushed. The body is a parameter, so nothing bounds the walk in
  general: not returning is the value \<open>None\<close>.
\<close>

definition is_dir_entry :: "string \<times> fsnode \<Rightarrow> bool" where
  "is_dir_entry nk = (case snd nk of Dir _ \<Rightarrow> True | File _ \<Rightarrow> False)"

partial_function (option) walk_loop ::
  "(string \<Rightarrow> string list \<Rightarrow> string list \<Rightarrow> state \<Rightarrow> error option \<times> state) \<Rightarrow>
   string list \<Rightarrow> state \<Rightarrow> (error option \<times> state) option" where
  "walk_loop body stack s =
     (case stack of
        [] \<Rightarrow> Some (None, s)
      | tp # rest \<Rightarrow>
         (case scandir (fs s) tp of
            Inl _ \<Rightarrow> walk_loop body rest s
          | Inr kids \<Rightarrow>
             (let dirs = map fst (filter is_dir_entry kids);
                  nondirs = map fst (filter (\<lambda>nk. \<not> is_dir_entry nk) kids)
              in case body tp dirs nondirs s of
                   (Some e, s') \<Rightarrow> Some (Some e, s')
                 | (None, s') \<Rightarrow> walk_loop body (map (join tp) dirs @ rest) s')))"

declare walk_loop.simps [code]

text \<open>
  \<^verbatim>\<open>
  def move_files_to_top(dir_path, del_empty_dirs=False, duplicate_suffix=True):
      for root, dirs, files in os.walk(dir_path):
          if root == dir_path:
              dirs0 = dirs
              continue
          for file in files:
              old_path = os.path.join(root, file)
              new_path = os.path.join(dir_path, file)
              if not os.path.exists(new_path):
                  shutil.move(old_path, new_path)
              elif duplicate_suffix:
                  new_path = get_unique_filename(new_path)
              else:
                  print(f"File {new_path} already exists")
                  shutil.move(old_path, new_path)
      dirs0 = [d for d in os.listdir(dir_path) if os.path.isdir(os.path.join(dir_path, d))]
      if del_empty_dirs:
          for d in dirs0:
              shutil.rmtree(os.path.join(dir_path, d))
  \<close>
  The function is the same in both variants of \<^verbatim>\<open>files.py\<close>. \<open>move_step\<close> is
  the body of the inner loop, \<open>move_body\<close> the body of the walk.
\<close>

definition move_step :: "string \<Rightarrow> bool \<Rightarrow> string \<Rightarrow> state \<Rightarrow> string \<Rightarrow> error option \<times> state" where
  "move_step dir_path duplicate_suffix root s file =
     (let old_path = join root file;
          new_path = join dir_path file
      in if \<not> path_exists (fs s) new_path then
           (case shutil_move (fs s) old_path new_path of
              Inl e \<Rightarrow> (Some e, s) | Inr t \<Rightarrow> (None, s\<lparr>fs := t\<rparr>))
         else if duplicate_suffix then
           (let new_path = get_unique_filename (fs s) new_path in (None, s))
         else
           (let s1 = s\<lparr>out := out s @ [''File '' @ new_path @ '' already exists'']\<rparr>
            in case shutil_move (fs s1) old_path new_path of
                 Inl e \<Rightarrow> (Some e, s1) | Inr t \<Rightarrow> (None, s1\<lparr>fs := t\<rparr>)))"

definition move_body :: "string \<Rightarrow> bool \<Rightarrow> string \<Rightarrow> string list \<Rightarrow> string list \<Rightarrow> state \<Rightarrow> error option \<times> state" where
  "move_body dir_path duplicate_suffix root dirs files s =
     (if root = dir_path then (None, s)
      else for_each (move_step dir_path duplicate_suffix root) files s)"

definition move_files_to_top :: "string \<Rightarrow> bool \<Rightarrow> bool \<Rightarrow> state \<Rightarrow> (error option \<times> state) option" where
  "move_files_to_top dir_path del_empty_dirs duplicate_suffix s =
     (case walk_loop (move_body dir_path duplicate_suffix) [dir_path] s of
        None \<Rightarrow> None
      | Some (Some e, s') \<Rightarrow> Some (Some e, s')
      | Some (None, s') \<Rightarrow>
         (case listdir (fs s') dir_path of
            Inl e \<Rightarrow> Some (Some e, s')
          | Inr entries \<Rightarrow>
             (let dirs0 = filter (\<lambda>d. isdir (fs s') (join dir_path d)) entries
              in if del_empty_dirs then
                   Some (for_each (\<lambda>s d. case rmtree (fs s) (join dir_path d) of
                                            Inl e \<Rightarrow> (Some e, s) | Inr t \<Rightarrow> (None, s\<lparr>fs := t\<rparr>)) dirs0 s')
                 else Some (None, s'))))"

definition state0 :: state where
  "state0 = \<lparr>fs = fs_collision, out = []\<rparr>"

text \<open>
  Claim C2. In the collision scenario, flattening \<^verbatim>\<open>root\<close> with
  \<^verbatim>\<open>duplicate_suffix=True\<close> should leave both files directly in \<^verbatim>\<open>root\<close>,
  one of them as \<^verbatim>\<open>x(1).txt\<close>. The branch for that policy computes a name and moves
  nothing: the call returns with the state unchanged, \<^verbatim>\<open>root/sub/x.txt\<close> where it
  was and no \<^verbatim>\<open>root/x(1).txt\<close>.
\<close>

theorem flatten_auto_suffix_moves_nothing:
  "move_files_to_top ''root'' False True state0 = Some (None, state0)
   \<and> node_at (fs state0) ''root/sub/x.txt'' = Some (File ''nested'')
   \<and> \<not> path_exists (fs state0) ''root/x(1).txt''"
  by code_simp

text \<open>
  Claim C1. No file should be dropped without a logged conflict, outside the combination of
  the skip policy with \<^verbatim>\<open>del_empty_dirs\<close>. With \<^verbatim>\<open>duplicate_suffix=True\<close> and
  \<^verbatim>\<open>del_empty_dirs=True\<close> the collision scenario ends with \<^verbatim>\<open>root/sub/x.txt\<close>
  deleted, its content nowhere, and nothing printed.
\<close>

theorem flatten_auto_suffix_silent_loss:
  "move_files_to_top ''root'' True True state0 =
     Some (None, \<lparr>fs = Dir [(''root'', Dir [(''x.txt'', File ''top'')])], out = []\<rparr>)"
  by code_simp

text \<open>
  Claim C4. With the skip policy (\<^verbatim>\<open>duplicate_suffix=False\<close>) a collision should be
  logged and the source left untouched, the destination never overwritten. The flattener
  prints the message and then moves all the same: in the collision scenario the content of
  \<^verbatim>\<open>root/x.txt\<close> is replaced by that of \<^verbatim>\<open>root/sub/x.txt\<close>, which is gone
  from \<^verbatim>\<open>root/sub\<close>.
\<close>

theorem flatten_skip_overwrites:
  "move_files_to_top ''root'' False False state0 =
     Some (None, \<lparr>fs = Dir [(''root'', Dir [(''x.txt'', File ''nested''), (''sub'', Dir [])])],
                  out = [''File root/x.txt already exists'']\<rparr>)"
  by code_simp

section \<open>The directory merge of \<^verbatim>\<open>safe_rename\<close>\<close>

text \<open>
  The current variant of \<^verbatim>\<open>files.py\<close> merges a directory into an existing one,
  file by file:
  \<^verbatim>\<open>
  for root, dirs, files in os.walk(old_fpath):
      for file in files:
          old_path = os.path.join(root, file)
          new_path = os.path.join(new_fpath, file)
          if not os.path.exists(new_path):
              try:
                  os.rename(old_path, new_path)
              except Exception as e:
                  print(f"Error: {e}")
          else:
              if find_unique_filename:
                  new_path = get_unique_filename(new_path)
                  try:
                      os.rename(old_path, new_path)
                  except Exception as e:
                      print(f"Error: {e}")
              else:
                  print(f"File {new_path} already exists")
  \<close>
  These are the lines of \<^verbatim>\<open>safe_rename\<close> that resolve collisions; its dispatch on
  \<^verbatim>\<open>old_fpath.is_dir()\<close> and its closing loop over \<^verbatim>\<open>dirs\<close> are not modelled.
  The text of an exception comes from the platform and is a parameter. Here the skip
  branch prints and does nothing else: the source stays, the destination is not touched.
\<close>

definition try_rename :: "(error \<Rightarrow> string) \<Rightarrow> string \<Rightarrow> string \<Rightarrow> state \<Rightarrow> state" where
  "try_rename msg old_path new_path s =
     (case os_rename (fs s) old_path new_path of
        Inl e \<Rightarrow> s\<lparr>out := out s @ [''Error: '' @ msg e]\<rparr>
      | Inr t \<Rightarrow> s\<lparr>fs := t\<rparr>)"

definition safe_rename_file ::
  "(error \<Rightarrow> string) \<Rightarrow> string \<Rightarrow> bool \<Rightarrow> string \<Rightarrow> state \<Rightarrow> string \<Rightarrow> state" where
  "safe_rename_file msg new_fpath find_unique_filename root s file =
     (let old_path = join root file;
          new_path = join new_fpath file
      in if \<not> path_exists (fs s) new_path then try_rename msg old_path new_path s
         else if find_unique_filename then
           (let new_path = get_unique_filename (fs s) new_path
            in try_rename msg old_path new_path s)
         else s\<lparr>out := out s @ [''File '' @ new_path @ '' already exists'']\<rparr>)"

definition safe_rename_merge ::
  "(error \<Rightarrow> string) \<Rightarrow> string \<Rightarrow> string \<Rightarrow> bool \<Rightarrow> state \<Rightarrow> (error option \<times> state) option" where
  "safe_rename_merge msg old_fpath new_fpath find_unique_filename s =
     walk_loop (\<lambda>root dirs files s.
                  (None, foldl (safe_rename_file msg new_fpath find_unique_filename root) s files))
       [old_fpath] s"

lemma safe_rename_file_skip:
  assumes "path_exists (fs s) (join new_fpath file)"
  shows "safe_rename_file msg new_fpath False root s file
           = s\<lparr>out := out s @ [''File '' @ join new_fpath file @ '' already exists'']\<rparr>"
  using assms by (simp add: safe_rename_file_def)

definition fs_merge :: fsnode where
  "fs_merge = Dir [(''a'', Dir [(''x.txt'', File ''incoming''), (''y.txt'', File ''other'')]),
                   (''b'', Dir [(''x.txt'', File ''kept'')])]"

lemma safe_rename_merge_skip:
  "safe_rename_merge msg ''a'' ''b'' False \<lparr>fs = fs_merge, out = []\<rparr>
     = Some (None,
         \<lparr>fs = Dir [(''a'', Dir [(''x.txt'', File ''incoming'')]),
                    (''b'', Dir [(''x.txt'', File ''kept''), (''y.txt'', File ''other'')])],
          out = [''File b/x.txt already exists'']\<rparr>)"
  by code_simp

section \<open>The log file of \<^verbatim>\<open>h5_logger\<close>\<close>

text \<open>
  \<^verbatim>\<open>utils.py\<close> keeps its log in one HDF5 file, through \<^verbatim>\<open>h5py\<close>. The file is a
  tree of groups and datasets. An array has a shape and its elements in row-major order;
  the elements are of one type, which stands for one dtype (conversion between dtypes is
  outside this model). A dataset has an array and, when it is chunked, the maximal shape
  it may be resized to (\<open>None\<close> along an axis is unlimited). Lock contention
  (\<^verbatim>\<open>BlockingIOError\<close>) needs a second writer and is not modelled.
\<close>

datatype 'a ndarray = NDArray (shape: "nat list") (elems: "'a list")

datatype 'a h5obj =
    Dataset (maxshape: "nat option list option") (content: "'a ndarray")
  | Group "(string \<times> 'a h5obj) list"

text \<open>
  What the logger acts on: the content of the file \<^verbatim>\<open>self.filename\<close>, if it is on
  disk, and the mode of every \<^verbatim>\<open>h5py.File\<close> call made so far.
\<close>

record 'a world =
  disk :: "'a h5obj option"
  opens :: "string list"

text \<open>A key is a path of names; empty components and \<^verbatim>\<open>.\<close> do not count.\<close>

definition h5_path :: "string \<Rightarrow> string list" where
  "h5_path key = filter (\<lambda>c. c \<noteq> [] \<and> c \<noteq> ''.'') (split_sep (CHR ''/'') key)"

fun h5_lookup :: "'a h5obj \<Rightarrow> string list \<Rightarrow> 'a h5obj option" where
  "h5_lookup t [] = Some t"
| "h5_lookup (Dataset _ _) (c # cs) = None"
| "h5_lookup (Group kids) (c # cs) =
     (case map_of kids c of None \<Rightarrow> None | Some k \<Rightarrow> h5_lookup k cs)"

fun h5_names :: "'a h5obj \<Rightarrow> string set" where
  "h5_names (Dataset _ _) = {}"
| "h5_names (Group kids) = fst ` set kids \<union> (\<Union>k \<in> snd ` set kids. h5_names k)"

text \<open>
  Linking a new object under a key creates the missing groups on the way; it fails where
  the name is taken or the way leads through a dataset. Unlinking fails on a missing key.
\<close>

fun nest :: "string list \<Rightarrow> 'a h5obj \<Rightarrow> 'a h5obj" where
  "nest [] new = new"
| "nest (c # cs) new = Group [(c, nest cs new)]"

fun h5_insert :: "string list \<Rightarrow> 'a h5obj \<Rightarrow> 'a h5obj \<Rightarrow> error + 'a h5obj" where
  "h5_insert [] new t = Inl ValueError"
| "h5_insert (c # cs) new (Dataset m a) = Inl ValueError"
| "h5_insert (c # cs) new (Group kids) =
     (case map_of kids c of
        None \<Rightarrow> Inr (Group (kids @ [(c, nest cs new)]))
      | Some k \<Rightarrow>
         (if cs = [] then Inl ValueError
          else case h5_insert cs new k of
                 Inl e \<Rightarrow> Inl e
               | Inr k' \<Rightarrow> Inr (Group (map (\<lambda>nk. if fst nk = c then (c, k') else nk) kids))))"

fun h5_delete :: "string list \<Rightarrow> 'a h5obj \<Rightarrow> error + 'a h5obj" where
  "h5_delete [] t = Inl KeyError"
| "h5_delete (c # cs) (Dataset m a) = Inl KeyError"
| "h5_delete (c # cs) (Group kids) =
     (case map_of kids c of
        None \<Rightarrow> Inl KeyError
      | Some k \<Rightarrow>
         (if cs = [] then Inr (Group (filter (\<lambda>nk. fst nk \<noteq> c) kids))
          else case h5_delete cs k of
                 Inl e \<Rightarrow> Inl e
               | Inr k' \<Rightarrow> Inr (Group (map (\<lambda>nk. if fst nk = c then (c, k') else nk) kids))))"

fun h5_replace :: "string list \<Rightarrow> 'a h5obj \<Rightarrow> 'a h5obj \<Rightarrow> 'a h5obj" where
  "h5_replace [] new t = new"
| "h5_replace (c # cs) new (Dataset m a) = Dataset m a"
| "h5_replace (c # cs) new (Group kids) =
     Group (map (\<lambda>nk. if fst nk = c then (c, h5_replace cs new (snd nk)) else nk) kids)"

text \<open>
  Writing a value into a record of another shape broadcasts it, a dimension of size one
  being repeated; shapes that do not fit raise \<^verbatim>\<open>TypeError\<close>.
\<close>

fun chunks :: "nat \<Rightarrow> nat \<Rightarrow> 'a list \<Rightarrow> 'a list list" where
  "chunks 0 n xs = []"
| "chunks (Suc k) n xs = take n xs # chunks k n (drop n xs)"

fun those_opt :: "'a option list \<Rightarrow> 'a list option" where
  "those_opt [] = Some []"
| "those_opt (x # xs) =
     (case x of None \<Rightarrow> None
      | Some y \<Rightarrow> (case those_opt xs of None \<Rightarrow> None | Some ys \<Rightarrow> Some (y # ys)))"

fun bcast :: "nat list \<Rightarrow> nat list \<Rightarrow> 'a list \<Rightarrow> 'a list option" where
  "bcast [] [] xs = Some xs"
| "bcast (s # ss) (t # ts) xs =
     (if s = t then
        map_option concat (those_opt (map (bcast ss ts) (chunks s (prod_list ss) xs)))
      else if s = 1 then map_option (\<lambda>ys. concat (replicate t ys)) (bcast ss ts xs)
      else None)"
| "bcast [] (t # ts) xs = map_option (\<lambda>ys. concat (replicate t ys)) (bcast [] ts xs)"
| "bcast (s # ss) [] xs = None"

definition broadcast_to :: "nat list \<Rightarrow> 'a ndarray \<Rightarrow> 'a list option" where
  "broadcast_to rs v =
     (let src = dropWhile (\<lambda>d. d = 1) (take (length (shape v) - length rs) (shape v))
                @ drop (length (shape v) - length rs) (shape v)
      in if shape v = rs then Some (elems v)
         else if length rs < length src then None
         else bcast (replicate (length rs - length src) 1 @ src) rs (elems v))"

section \<open>\<^verbatim>\<open>h5_logger\<close>\<close>

text \<open>
  The names that the import statements of \<^verbatim>\<open>utils.py\<close> bind in the module:
  \<^verbatim>\<open>os\<close> is not one of them, although \<^verbatim>\<open>check_if_in_h5\<close> uses it. The
  functions that look a global name up take the bound names as an argument.
\<close>

definition utils_globals :: "string list" where
  "utils_globals = [''contextlib'', ''datetime'', ''logging'', ''time'', ''h5py'', ''joblib'']"

text \<open>
  \<^verbatim>\<open>h5py.File(filename, mode)\<close>: the modes \<^verbatim>\<open>r\<close> and \<^verbatim>\<open>r+\<close> need the
  file, the mode \<^verbatim>\<open>a\<close> creates it. What a \<^verbatim>\<open>with\<close> block wrote before an
  exception stays written.
\<close>

definition open_read :: "string \<Rightarrow> 'a world \<Rightarrow> (error + 'a h5obj) \<times> 'a world" where
  "open_read mode w =
     (case disk w of
        None \<Rightarrow> (Inl FileNotFoundError, w\<lparr>opens := opens w @ [mode]\<rparr>)
      | Some root \<Rightarrow> (Inr root, w\<lparr>opens := opens w @ [mode]\<rparr>))"

definition with_append :: "('a h5obj \<Rightarrow> error option \<times> 'a h5obj) \<Rightarrow> 'a world \<Rightarrow> error option \<times> 'a world" where
  "with_append f w =
     (let root = (case disk w of None \<Rightarrow> Group [] | Some r \<Rightarrow> r);
          (e, root') = f root
      in (e, \<lparr>disk = Some root', opens = opens w @ [''a'']\<rparr>))"

text \<open>
  \<^verbatim>\<open>
  def check_if_in_h5(path, key):
      if not os.path.exists(path):
          return False
      with h5py.File(path, "r") as f:
          try:
              f[key]
              return True
          except KeyError:
              return False
  \<close>
\<close>

definition check_if_in_h5 :: "string list \<Rightarrow> 'a world \<Rightarrow> string \<Rightarrow> (error + bool) \<times> 'a world" where
  "check_if_in_h5 G w key =
     (if ''os'' \<notin> set G then (Inl NameError, w)
      else if disk w = None then (Inr False, w)
      else case open_read ''r'' w of
             (Inl e, w') \<Rightarrow> (Inl e, w')
           | (Inr f, w') \<Rightarrow> (Inr (h5_lookup f (h5_path key) \<noteq> None), w'))"

text \<open>
  \<^verbatim>\<open>
  def _init_dataset(self, file, dataset_name, data):
      file.create_dataset(dataset_name, data=data[None], maxshape=(None,) + data.shape)

  def _append_to_dataset(self, file, dataset_name, data):
      file[dataset_name].resize((file[dataset_name].shape[0] + 1, *file[dataset_name].shape[1:]))
      file[dataset_name][-1] = data

  def log_value(self, data_key, data_value, file=None):
      if file is not None:
          if data_key not in file.keys():
              self._init_dataset(file, data_key, data_value)
          else:
              self._append_to_dataset(file, data_key, data_value)
      else:
          with h5py.File(self.filename, "a") as file:
              (the same)

  def get_dataset(self, dataset_name):
      with h5py.File(self.filename, "r") as file:
          return file[dataset_name][:]
  \<close>
  The resize fills the new record with zeros before the value is written, so a write that
  raises leaves the dataset one record longer.
\<close>

definition init_dataset :: "'a h5obj \<Rightarrow> string \<Rightarrow> 'a ndarray \<Rightarrow> error option \<times> 'a h5obj" where
  "init_dataset file dataset_name data =
     (case h5_insert (h5_path dataset_name)
             (Dataset (Some (None # map Some (shape data))) (NDArray (1 # shape data) (elems data)))
             file of
        Inl e \<Rightarrow> (Some e, file)
      | Inr file' \<Rightarrow> (None, file'))"

definition append_to_dataset :: "'a::zero h5obj \<Rightarrow> string \<Rightarrow> 'a ndarray \<Rightarrow> error option \<times> 'a h5obj" where
  "append_to_dataset file dataset_name data =
     (case h5_lookup file (h5_path dataset_name) of
        None \<Rightarrow> (Some KeyError, file)
      | Some (Group _) \<Rightarrow> (Some AttributeError, file)
      | Some (Dataset ms (NDArray sh es)) \<Rightarrow>
         (case sh of
            [] \<Rightarrow> (Some IndexError, file)
          | n # rs \<Rightarrow>
             (case ms of
                None \<Rightarrow> (Some TypeError, file)
              | Some m \<Rightarrow>
                 (if (case m of Some k # _ \<Rightarrow> k < Suc n | _ \<Rightarrow> False) then (Some ValueError, file)
                  else
                    let grown = es @ replicate (prod_list rs) 0;
                        file1 = h5_replace (h5_path dataset_name)
                                  (Dataset ms (NDArray (Suc n # rs) grown)) file
                    in case broadcast_to rs data of
                         None \<Rightarrow> (Some TypeError, file1)
                       | Some row \<Rightarrow>
                           (None, h5_replace (h5_path dataset_name)
                                    (Dataset ms (NDArray (Suc n # rs)
                                       (take (length grown - prod_list rs) grown @ row))) file1)))))"

definition log_value_in :: "'a::zero h5obj \<Rightarrow> string \<Rightarrow> 'a ndarray \<Rightarrow> error option \<times> 'a h5obj" where
  "log_value_in file data_key data_value =
     (if h5_lookup file (h5_path data_key) = None then init_dataset file data_key data_value
      else append_to_dataset file data_key data_value)"

definition log_value :: "string \<Rightarrow> 'a::zero ndarray \<Rightarrow> 'a world \<Rightarrow> error option \<times> 'a world" where
  "log_value data_key data_value w = with_append (\<lambda>file. log_value_in file data_key data_value) w"

definition get_dataset :: "string \<Rightarrow> 'a world \<Rightarrow> (error + 'a ndarray) \<times> 'a world" where
  "get_dataset dataset_name w =
     (case open_read ''r'' w of
        (Inl e, w') \<Rightarrow> (Inl e, w')
      | (Inr file, w') \<Rightarrow>
         (case h5_lookup file (h5_path dataset_name) of
            None \<Rightarrow> (Inl KeyError, w')
          | Some (Group _) \<Rightarrow> (Inl TypeError, w')
          | Some (Dataset _ a) \<Rightarrow> if shape a = [] then (Inl ValueError, w') else (Inr a, w')))"

text \<open>\<^verbatim>\<open>a[-1]\<close> of an array with a leading dimension.\<close>

definition last_record :: "'a ndarray \<Rightarrow> 'a ndarray option" where
  "last_record a =
     (case shape a of
        [] \<Rightarrow> None
      | n # rs \<Rightarrow> if n = 0 then None
                  else Some (NDArray rs (drop (length (elems a) - prod_list rs) (elems a))))"

text \<open>
  \<^verbatim>\<open>
  def log_attribute(self, key, value, replace=False):
      if check_if_in_h5(self.filename, key):
          if not replace:
              AttributeError(f"Key {key} already exists. Use replace=True to overwrite.")
          else:
              with h5py.File(self.filename, "a") as file:
                  del file[key]
                  file[key] = value
      else:
          with h5py.File(self.filename, "a") as file:
              file[key] = value
  \<close>
  The exception object is built and dropped: there is no \<^verbatim>\<open>raise\<close>.
\<close>

definition set_item :: "string \<Rightarrow> 'a ndarray \<Rightarrow> 'a h5obj \<Rightarrow> error option \<times> 'a h5obj" where
  "set_item key v file =
     (case h5_insert (h5_path key) (Dataset None v) file of
        Inl e \<Rightarrow> (Some e, file) | Inr file' \<Rightarrow> (None, file'))"

definition del_item :: "string \<Rightarrow> 'a h5obj \<Rightarrow> error option \<times> 'a h5obj" where
  "del_item key file =
     (case h5_delete (h5_path key) file of
        Inl e \<Rightarrow> (Some e, file) | Inr file' \<Rightarrow> (None, file'))"

definition log_attribute :: "string list \<Rightarrow> string \<Rightarrow> 'a ndarray \<Rightarrow> bool \<Rightarrow> 'a world \<Rightarrow> error option \<times> 'a world" where
  "log_attribute G key v replace w =
     (case check_if_in_h5 G w key of
        (Inl e, w') \<Rightarrow> (Some e, w')
      | (Inr True, w') \<Rightarrow>
          if \<not> replace then (None, w')
          else with_append (\<lambda>file. case del_item key file of
                                     (Some e, file') \<Rightarrow> (Some e, file')
                                   | (None, file') \<Rightarrow> set_item key v file') w'
      | (Inr False, w') \<Rightarrow> with_append (set_item key v) w')"

text \<open>
  \<^verbatim>\<open>
  def get_keys(self, *args):
      largs = len(args)
      assert largs <= 1, f"Expected 0 or 1 arguments, received {largs}"
      if len(args) == 0:
          with h5py.File(self.filename, "r") as file:
              return list(file.keys())
      else:
          with h5py.File(self.filename, "r") as file:
              return list(file[args[0]].keys())
  \<close>
  Assertions are executed (the interpreter does not run with \<^verbatim>\<open>-O\<close>).
\<close>

definition children :: "'a h5obj \<Rightarrow> error + string list" where
  "children g = (case g of Group kids \<Rightarrow> Inr (map fst kids) | Dataset _ _ \<Rightarrow> Inl AttributeError)"

definition get_keys :: "string list \<Rightarrow> 'a world \<Rightarrow> (error + string list) \<times> 'a world" where
  "get_keys args w =
     (let largs = length args
      in if \<not> largs \<le> 1 then (Inl AssertionError, w)
         else if length args = 0 then
           (case open_read ''r'' w of
              (Inl e, w') \<Rightarrow> (Inl e, w')
            | (Inr file, w') \<Rightarrow> (children file, w'))
         else
           (case open_read ''r'' w of
              (Inl e, w') \<Rightarrow> (Inl e, w')
            | (Inr file, w') \<Rightarrow>
               (case h5_lookup file (h5_path (args ! 0)) of
                  None \<Rightarrow> (Inl KeyError, w')
                | Some g \<Rightarrow> (children g, w'))))"

definition check_key :: "string list \<Rightarrow> 'a world \<Rightarrow> string \<Rightarrow> (error + bool) \<times> 'a world" where
  "check_key G w key = check_if_in_h5 G w key"

section \<open>Properties of the logger\<close>

text \<open>Two log files: one attribute, and an attribute beside a group.\<close>

definition world_a :: "int world" where
  "world_a = \<lparr>disk = Some (Group [(''a'', Dataset None (NDArray [] [1]))]), opens = []\<rparr>"

definition world_g :: "int world" where
  "world_g = \<lparr>disk = Some (Group [(''a'', Dataset None (NDArray [] [1])),
                                  (''g'', Group [(''d'', Dataset None (NDArray [] [2]))])]),
              opens = []\<rparr>"

text \<open>
  Claim C9. \<^verbatim>\<open>get_keys\<close> with two or more positional arguments fails with an
  assertion error before the log file is opened (no \<^verbatim>\<open>h5py.File\<close> call is made);
  with no argument or one the assertion passes, and the names of the children of the root,
  or of the group that the argument names, are returned.
\<close>

theorem get_keys_assertion:
  "(2 \<le> length args \<longrightarrow> get_keys args w = (Inl AssertionError, w)) \<and>
   (length args \<le> 1 \<longrightarrow> fst (get_keys args w) \<noteq> Inl AssertionError) \<and>
   (disk w = Some (Group kids) \<longrightarrow> fst (get_keys [] w) = Inr (map fst kids)) \<and>
   (disk w = Some root \<and> h5_lookup root (h5_path k) = Some (Group sub) \<longrightarrow>
      fst (get_keys [k] w) = Inr (map fst sub))"
proof (intro conjI impI)
  assume "2 \<le> length args"
  then show "get_keys args w = (Inl AssertionError, w)" by (simp add: get_keys_def)
next
  assume "length args \<le> 1"
  then show "fst (get_keys args w) \<noteq> Inl AssertionError"
    by (auto simp: get_keys_def open_read_def children_def
             split: option.splits h5obj.splits prod.splits sum.splits)
next
  assume "disk w = Some (Group kids)"
  then show "fst (get_keys [] w) = Inr (map fst kids)"
    by (simp add: get_keys_def open_read_def children_def)
next
  assume "disk w = Some root \<and> h5_lookup root (h5_path k) = Some (Group sub)"
  then show "fst (get_keys [k] w) = Inr (map fst sub)"
    by (simp add: get_keys_def open_read_def children_def)
qed

lemma world_g_lookup: "h5_lookup (the (disk world_g)) (h5_path ''g'') = Some (Group [(''d'', Dataset None (NDArray [] [2]))])"
  by code_simp

theorem get_keys_assertion_witness:
  "get_keys [''g'', ''a''] world_g = (Inl AssertionError, world_g) \<and>
   fst (get_keys [] world_g) = Inr [''a'', ''g''] \<and>
   fst (get_keys [''g''] world_g) = Inr [''d'']"
  using get_keys_assertion[of "[''g'', ''a'']" world_g "[(''a'', Dataset None (NDArray [] [1])),
                                  (''g'', Group [(''d'', Dataset None (NDArray [] [2]))])]" "the (disk world_g)" "''g''"  "[(''d'', Dataset None (NDArray [] [2]))]"]
    world_g_lookup
  by (simp add: world_g_def)

lemma map_of_filter_neq: "map_of (filter (\<lambda>nk. fst nk \<noteq> c) kids) c = None"
  by (induction kids) auto

lemma map_of_map_replace:
  "map_of kids c = Some k \<Longrightarrow>
   map_of (map (\<lambda>nk. if fst nk = c then (c, k') else nk) kids) c = Some k'"
  by (induction kids) (auto split: if_splits)

lemma h5_lookup_nest: "h5_lookup (nest cs new) cs = Some new"
  by (induction cs) auto

lemma h5_delete_insert:
  "h5_lookup t p = Some x \<Longrightarrow> p \<noteq> [] \<Longrightarrow>
   \<exists>t' t''. h5_delete p t = Inr t' \<and> h5_insert p new t' = Inr t'' \<and> h5_lookup t'' p = Some new"
proof (induction t p rule: h5_lookup.induct)
  case (1 t)
  then show ?case by simp
next
  case (2 m a c cs)
  then show ?case by simp
next
  case (3 kids c cs)
  from "3.prems" obtain k where k: "map_of kids c = Some k" "h5_lookup k cs = Some x"
    by (auto split: option.splits)
  show ?case
  proof (cases "cs = []")
    case True
    then show ?thesis using k by (simp add: map_of_filter_neq map_add_def)
  next
    case False
    from "3.IH"[OF k(1) k(2) False] obtain k' k'' where
      d: "h5_delete cs k = Inr k'" and i: "h5_insert cs new k' = Inr k''"
      and l: "h5_lookup k'' cs = Some new" by blast
    let ?kids' = "map (\<lambda>nk. if fst nk = c then (c, k') else nk) kids"
    have m1: "map_of ?kids' c = Some k'" using k(1) by (rule map_of_map_replace)
    have m2: "map_of (map (\<lambda>nk. if fst nk = c then (c, k'') else nk) ?kids') c = Some k''"
      using m1 by (rule map_of_map_replace)
    show ?thesis using False k d i l m1 m2 by simp
  qed
qed

text \<open>
  \<^verbatim>\<open>log_attribute\<close> on a key that is taken, in a module where \<^verbatim>\<open>os\<close> is bound:
  without \<^verbatim>\<open>replace\<close> the call returns normally and writes nothing; with
  \<^verbatim>\<open>replace\<close> the key holds the new value afterwards.
\<close>

lemma log_attribute_no_replace:
  assumes "''os'' \<in> set G" "disk w = Some root" "h5_lookup root (h5_path key) \<noteq> None"
  shows "log_attribute G key v False w = (None, w\<lparr>opens := opens w @ [''r'']\<rparr>)"
  using assms by (simp add: log_attribute_def check_if_in_h5_def open_read_def)

lemma log_attribute_replace:
  assumes "''os'' \<in> set G" "disk w = Some root" "h5_lookup root (h5_path key) = Some x"
    "h5_path key \<noteq> []"
  shows "\<exists>root'. log_attribute G key v True w = (None, \<lparr>disk = Some root', opens = opens w @ [''r'', ''a'']\<rparr>)
           \<and> h5_lookup root' (h5_path key) = Some (Dataset None v)"
proof -
  from h5_delete_insert[OF assms(3,4), of "Dataset None v"] obtain t' t'' where
    "h5_delete (h5_path key) root = Inr t'" "h5_insert (h5_path key) (Dataset None v) t' = Inr t''"
    "h5_lookup t'' (h5_path key) = Some (Dataset None v)" by blast
  then show ?thesis using assms
    by (simp add: log_attribute_def check_if_in_h5_def open_read_def with_append_def
                  del_item_def set_item_def)
qed


text \<open>
  Claim C3. On a key that holds a value, \<^verbatim>\<open>log_attribute\<close> without
  \<^verbatim>\<open>replace\<close> should fail with an error that says so, and with \<^verbatim>\<open>replace\<close> it
  should overwrite. In the module as it is, both calls raise \<^verbatim>\<open>NameError\<close> from
  \<^verbatim>\<open>check_if_in_h5\<close> and write nothing; with \<^verbatim>\<open>os\<close> bound, the call without
  \<^verbatim>\<open>replace\<close> returns normally, having only read the file.
\<close>

theorem log_attribute_existing_key:
  "log_attribute utils_globals ''a'' (NDArray [] [2]) False world_a = (Some NameError, world_a)
   \<and> log_attribute utils_globals ''a'' (NDArray [] [2]) True world_a = (Some NameError, world_a)
   \<and> log_attribute (''os'' # utils_globals) ''a'' (NDArray [] [2]) False world_a
       = (None, world_a\<lparr>opens := [''r'']\<rparr>)"
  by code_simp

section \<open>Appending values: \<^verbatim>\<open>log_value\<close> and \<^verbatim>\<open>get_dataset\<close>\<close>

text \<open>
  Where \<^verbatim>\<open>log_value\<close> can write: a key is free when nothing is linked under it and
  the way to it leads through groups only; a dataset can grow for records of shape
  \<open>rs\<close> when it is chunked, unlimited along its leading dimension, and its records
  have that shape. An array is well formed when it has as many elements as its shape says.
\<close>

fun free_slot :: "'a h5obj \<Rightarrow> string list \<Rightarrow> bool" where
  "free_slot t [] = False"
| "free_slot (Dataset _ _) (c # cs) = False"
| "free_slot (Group kids) (c # cs) =
     (case map_of kids c of None \<Rightarrow> True | Some k \<Rightarrow> free_slot k cs)"

definition growable :: "'a h5obj \<Rightarrow> string list \<Rightarrow> nat list \<Rightarrow> bool" where
  "growable t p rs =
     (case h5_lookup t p of
        Some (Dataset ms a) \<Rightarrow>
          ms \<noteq> None \<and> take 1 (the ms) = [None] \<and> shape a \<noteq> [] \<and> tl (shape a) = rs
      | _ \<Rightarrow> False)"

definition wf_array :: "'a ndarray \<Rightarrow> bool" where
  "wf_array a = (length (elems a) = prod_list (shape a))"

definition log_values :: "string \<Rightarrow> 'a::zero ndarray list \<Rightarrow> 'a world \<Rightarrow> error option \<times> 'a world" where
  "log_values key vs w = for_each (\<lambda>w v. log_value key v w) vs w"

definition writable :: "'a world \<Rightarrow> string \<Rightarrow> nat list \<Rightarrow> bool" where
  "writable w key rs =
     (case disk w of
        None \<Rightarrow> h5_path key \<noteq> []
      | Some root \<Rightarrow> free_slot root (h5_path key) \<or> growable root (h5_path key) rs)"

definition absent :: "'a world \<Rightarrow> string \<Rightarrow> bool" where
  "absent w key =
     (case disk w of None \<Rightarrow> h5_path key \<noteq> [] | Some root \<Rightarrow> free_slot root (h5_path key))"

text \<open>The log file before any call, and after one value of shape \<^verbatim>\<open>(2,)\<close>.\<close>

definition world0 :: "int world" where
  "world0 = \<lparr>disk = None, opens = []\<rparr>"

definition world_k :: "int world" where
  "world_k = \<lparr>disk = Some (Group [(''k'', Dataset (Some [None, Some 2]) (NDArray [1, 2] [5, 6]))]),
              opens = [''a'']\<rparr>"

lemma world_k_reached: "snd (log_value ''k'' (NDArray [2] [5, 6]) world0) = world_k"
  by code_simp

lemma free_slot_absent: "free_slot t p \<Longrightarrow> h5_lookup t p = None"
  by (induction t p rule: free_slot.induct) (auto split: option.splits)

lemma h5_insert_free:
  "free_slot t p \<Longrightarrow> \<exists>t'. h5_insert p new t = Inr t' \<and> h5_lookup t' p = Some new"
proof (induction t p rule: free_slot.induct)
  case (3 kids c cs)
  show ?case
  proof (cases "map_of kids c")
    case None
    then show ?thesis by (simp add: h5_lookup_nest map_add_def)
  next
    case (Some k)
    with "3.prems" have f: "free_slot k cs" by simp
    then have ne: "cs \<noteq> []" by (cases cs) auto
    from "3.IH"[OF Some f] obtain k' where
      k': "h5_insert cs new k = Inr k'" "h5_lookup k' cs = Some new" by blast
    have "map_of (map (\<lambda>nk. if fst nk = c then (c, k') else nk) kids) c = Some k'"
      using Some by (rule map_of_map_replace)
    then show ?thesis using Some ne k' by simp
  qed
qed auto

lemma h5_lookup_replace:
  "h5_lookup t p = Some x \<Longrightarrow> h5_lookup (h5_replace p new t) p = Some new"
proof (induction t p rule: h5_lookup.induct)
  case (3 kids c cs)
  then obtain k where k: "map_of kids c = Some k" "h5_lookup k cs = Some x"
    by (auto split: option.splits)
  have "map_of (map (\<lambda>nk. if fst nk = c then (c, h5_replace cs new (snd nk)) else nk) kids) c
          = Some (h5_replace cs new k)"
    using k(1) by (induction kids) (auto split: if_splits)
  with 3 k show ?case by simp
qed auto

lemma init_dataset_free:
  assumes "free_slot file (h5_path key)"
  shows "\<exists>file'. log_value_in file key v = (None, file') \<and>
           h5_lookup file' (h5_path key)
             = Some (Dataset (Some (None # map Some (shape v))) (NDArray (1 # shape v) (elems v)))"
proof -
  let ?d = "Dataset (Some (None # map Some (shape v))) (NDArray (1 # shape v) (elems v))"
  from h5_insert_free[OF assms, of ?d] obtain t' where
    "h5_insert (h5_path key) ?d file = Inr t'" "h5_lookup t' (h5_path key) = Some ?d" by blast
  then show ?thesis using free_slot_absent[OF assms]
    by (simp add: log_value_in_def init_dataset_def)
qed

lemma append_growable:
  assumes "h5_lookup file (h5_path key) = Some (Dataset (Some (None # m)) (NDArray (n # shape v) es))"
  shows "\<exists>file'. log_value_in file key v = (None, file') \<and>
           h5_lookup file' (h5_path key)
             = Some (Dataset (Some (None # m)) (NDArray (Suc n # shape v) (es @ elems v)))"
proof -
  let ?p = "h5_path key"
  let ?g = "Dataset (Some (None # m)) (NDArray (Suc n # shape v) (es @ replicate (prod_list (shape v)) 0))"
  have 1: "h5_lookup (h5_replace ?p ?g file) ?p = Some ?g"
    using assms by (rule h5_lookup_replace)
  have 2: "h5_lookup (h5_replace ?p new (h5_replace ?p ?g file)) ?p = Some new" for new
    using 1 by (rule h5_lookup_replace)
  show ?thesis
    using assms 2
    by (simp add: log_value_in_def append_to_dataset_def broadcast_to_def Let_def)
qed

lemma last_record_append:
  "wf_array v \<Longrightarrow> last_record (NDArray (Suc n # shape v) (es @ elems v)) = Some v"
  by (cases v) (simp add: last_record_def wf_array_def)

lemma free_slot_empty: "p \<noteq> [] \<Longrightarrow> free_slot (Group []) p"
  by (cases p) auto

lemma growableE:
  assumes "growable t p rs"
  obtains m n es where "h5_lookup t p = Some (Dataset (Some (None # m)) (NDArray (n # rs) es))"
proof -
  from assms obtain ms a where l: "h5_lookup t p = Some (Dataset ms a)"
    and c: "ms \<noteq> None" "take 1 (the ms) = [None]" "shape a \<noteq> []" "tl (shape a) = rs"
    by (auto simp: growable_def split: option.splits h5obj.splits)
  from c(1,2) obtain m where "ms = Some (None # m)"
    by (cases ms; cases "the ms") auto
  moreover from c(3,4) obtain n es where "a = NDArray (n # rs) es"
    by (cases a; cases "shape a") auto
  ultimately show ?thesis using l that by simp
qed

lemma log_value_step:
  assumes "writable w key (shape v)"
  shows "\<exists>root' m n es. log_value key v w = (None, \<lparr>disk = Some root', opens = opens w @ [''a'']\<rparr>)
           \<and> h5_lookup root' (h5_path key)
                = Some (Dataset (Some (None # m)) (NDArray (Suc n # shape v) (es @ elems v)))
           \<and> (absent w key \<longrightarrow> n = 0 \<and> es = [])
           \<and> (\<forall>root k q. disk w = Some root \<and>
                  h5_lookup root (h5_path key) = Some (Dataset (Some (None # q)) (NDArray (k # shape v) es'))
                  \<longrightarrow> n = k \<and> es = es')"
proof -
  let ?root = "case disk w of None \<Rightarrow> Group [] | Some r \<Rightarrow> r"
  from assms have "free_slot ?root (h5_path key) \<or> growable ?root (h5_path key) (shape v)"
    by (auto simp: writable_def free_slot_empty split: option.splits)
  then show ?thesis
  proof
    assume f: "free_slot ?root (h5_path key)"
    from init_dataset_free[OF f, of v] obtain file' where
      "log_value_in ?root key v = (None, file')"
      "h5_lookup file' (h5_path key)
         = Some (Dataset (Some (None # map Some (shape v))) (NDArray (1 # shape v) (elems v)))"
      by blast
    moreover have "h5_lookup r (h5_path key) = None" if "disk w = Some r" for r
      using f that free_slot_absent by fastforce
    ultimately show ?thesis
      by (intro exI[of _ file'] exI[of _ "map Some (shape v)"] exI[of _ 0] exI[of _ "[]"])
         (auto simp: log_value_def with_append_def)
  next
    assume "growable ?root (h5_path key) (shape v)"
    then obtain m n es where
      l: "h5_lookup ?root (h5_path key) = Some (Dataset (Some (None # m)) (NDArray (n # shape v) es))"
      by (rule growableE)
    from append_growable[OF l] obtain file' where
      "log_value_in ?root key v = (None, file')"
      "h5_lookup file' (h5_path key)
         = Some (Dataset (Some (None # m)) (NDArray (Suc n # shape v) (es @ elems v)))"
      by blast
    moreover have "\<not> absent w key"
    proof (cases "disk w")
      case None
      with l show ?thesis by (cases "h5_path key") auto
    next
      case (Some r)
      with l free_slot_absent[of r "h5_path key"] show ?thesis by (auto simp: absent_def)
    qed
    ultimately show ?thesis using l
      by (intro exI[of _ file'] exI[of _ m] exI[of _ n] exI[of _ es])
         (auto simp: log_value_def with_append_def split: option.splits)
  qed
qed


lemma log_value_growable:
  assumes "disk w = Some root"
    "h5_lookup root (h5_path key) = Some (Dataset (Some (None # m)) (NDArray (n # shape v) es))"
  shows "\<exists>root'. log_value key v w = (None, \<lparr>disk = Some root', opens = opens w @ [''a'']\<rparr>)
           \<and> h5_lookup root' (h5_path key)
                = Some (Dataset (Some (None # m)) (NDArray (Suc n # shape v) (es @ elems v)))"
proof -
  from append_growable[OF assms(2)] obtain file' where
    "log_value_in root key v = (None, file')"
    "h5_lookup file' (h5_path key)
       = Some (Dataset (Some (None # m)) (NDArray (Suc n # shape v) (es @ elems v)))"
    by blast
  then show ?thesis using assms(1) by (simp add: log_value_def with_append_def)
qed

lemma log_values_growable:
  assumes "\<forall>v \<in> set vs. shape v = rs" "disk w = Some root"
    "h5_lookup root (h5_path key) = Some (Dataset (Some (None # m)) (NDArray (n # rs) es))"
  shows "\<exists>root' ops. log_values key vs w = (None, \<lparr>disk = Some root', opens = ops\<rparr>)
           \<and> h5_lookup root' (h5_path key)
                = Some (Dataset (Some (None # m))
                         (NDArray ((n + length vs) # rs) (es @ concat (map elems vs))))"
  using assms
proof (induction vs arbitrary: w root n es)
  case Nil
  then show ?case by (cases w) (simp add: log_values_def)
next
  case (Cons v vs)
  from Cons.prems(1) have sv: "shape v = rs" and rest: "\<forall>v \<in> set vs. shape v = rs" by auto
  from log_value_growable[OF Cons.prems(2), of key m n v es] Cons.prems(3) sv
  obtain root1 where
    s1: "log_value key v w = (None, \<lparr>disk = Some root1, opens = opens w @ [''a'']\<rparr>)"
    and l1: "h5_lookup root1 (h5_path key)
               = Some (Dataset (Some (None # m)) (NDArray (Suc n # rs) (es @ elems v)))"
    by auto
  let ?w1 = "\<lparr>disk = Some root1, opens = opens w @ [''a'']\<rparr>"
  have "disk ?w1 = Some root1" by simp
  from Cons.IH[OF rest this l1] obtain root' ops where
    "log_values key vs ?w1 = (None, \<lparr>disk = Some root', opens = ops\<rparr>)"
    "h5_lookup root' (h5_path key)
       = Some (Dataset (Some (None # m))
                (NDArray ((Suc n + length vs) # rs) ((es @ elems v) @ concat (map elems vs))))"
    by blast
  then show ?case using s1 by (auto simp: log_values_def)
qed

lemma log_values_absent:
  assumes "vs \<noteq> []" "\<forall>v \<in> set vs. shape v = rs" "absent w key"
  shows "\<exists>root' ops m. log_values key vs w = (None, \<lparr>disk = Some root', opens = ops\<rparr>)
           \<and> h5_lookup root' (h5_path key)
                = Some (Dataset m (NDArray (length vs # rs) (concat (map elems vs))))"
proof -
  from assms(1) obtain v vs' where vs: "vs = v # vs'" by (cases vs) auto
  with assms(2) have sv: "shape v = rs" and rest: "\<forall>v \<in> set vs'. shape v = rs" by auto
  have "writable w key (shape v)" using assms(3) by (auto simp: writable_def absent_def split: option.splits)
  from log_value_step[OF this, of "[]"] assms(3) obtain root1 m where
    s1: "log_value key v w = (None, \<lparr>disk = Some root1, opens = opens w @ [''a'']\<rparr>)"
    and l1: "h5_lookup root1 (h5_path key)
               = Some (Dataset (Some (None # m)) (NDArray (Suc 0 # shape v) ([] @ elems v)))"
    by auto
  let ?w1 = "\<lparr>disk = Some root1, opens = opens w @ [''a'']\<rparr>"
  have d: "disk ?w1 = Some root1" by simp
  from l1 sv have l1': "h5_lookup root1 (h5_path key)
               = Some (Dataset (Some (None # m)) (NDArray (1 # rs) (elems v)))" by simp
  from log_values_growable[OF rest d l1'] obtain root' ops where
    "log_values key vs' ?w1 = (None, \<lparr>disk = Some root', opens = ops\<rparr>)"
    "h5_lookup root' (h5_path key)
       = Some (Dataset (Some (None # m))
                (NDArray ((1 + length vs') # rs) (elems v @ concat (map elems vs'))))"
    by blast
  then show ?thesis using s1 vs by (auto simp: log_values_def)
qed

lemma get_dataset_holds:
  assumes "disk w = Some root" "h5_lookup root (h5_path key) = Some (Dataset m a)" "shape a \<noteq> []"
  shows "fst (get_dataset key w) = Inr a"
  using assms by (simp add: get_dataset_def open_read_def)

text \<open>
  Claim C8, as amended. When the key is free, or holds a dataset that can grow for records
  of the shape of \<open>v\<close>, \<^verbatim>\<open>log_value(key, v)\<close> returns normally and
  \<^verbatim>\<open>get_dataset(key)\<close> then returns an array whose last record is \<open>v\<close>; an
  append makes the dataset one record longer along its leading dimension and keeps the
  records it had; from a free key, one or more calls with values of one shape give a
  dataset whose length is the number of calls, holding the values in order.
\<close>

theorem log_value_round_trip:
  "(wf_array v \<and> writable w key (shape v) \<longrightarrow>
      fst (log_value key v w) = None \<and>
      (\<exists>a. fst (get_dataset key (snd (log_value key v w))) = Inr a \<and> last_record a = Some v)) \<and>
   (disk w = Some root \<and>
    h5_lookup root (h5_path key) = Some (Dataset (Some (None # m)) (NDArray (n # shape v) es)) \<longrightarrow>
      fst (get_dataset key (snd (log_value key v w)))
        = Inr (NDArray (Suc n # shape v) (es @ elems v))) \<and>
   (vs \<noteq> [] \<and> (\<forall>v \<in> set vs. shape v = rs) \<and> absent w key \<longrightarrow>
      fst (log_values key vs w) = None \<and>
      fst (get_dataset key (snd (log_values key vs w)))
        = Inr (NDArray (length vs # rs) (concat (map elems vs))))"
proof (intro conjI impI)
  assume a: "wf_array v \<and> writable w key (shape v)"
  from log_value_step[of w key v "[]"] a obtain root' m n es where
    s: "log_value key v w = (None, \<lparr>disk = Some root', opens = opens w @ [''a'']\<rparr>)"
    and l: "h5_lookup root' (h5_path key)
              = Some (Dataset (Some (None # m)) (NDArray (Suc n # shape v) (es @ elems v)))"
    by blast
  from s show "fst (log_value key v w) = None" by simp
  have "fst (get_dataset key (snd (log_value key v w)))
          = Inr (NDArray (Suc n # shape v) (es @ elems v))"
    using s l by (intro get_dataset_holds[where root = root']) auto
  moreover have "last_record (NDArray (Suc n # shape v) (es @ elems v)) = Some v"
    using a by (intro last_record_append) simp
  ultimately show "\<exists>a. fst (get_dataset key (snd (log_value key v w))) = Inr a \<and> last_record a = Some v"
    by blast
next
  assume a: "disk w = Some root \<and>
    h5_lookup root (h5_path key) = Some (Dataset (Some (None # m)) (NDArray (n # shape v) es))"
  from log_value_growable[of w root key m n v es] a obtain root' where
    s: "log_value key v w = (None, \<lparr>disk = Some root', opens = opens w @ [''a'']\<rparr>)"
    and l: "h5_lookup root' (h5_path key)
              = Some (Dataset (Some (None # m)) (NDArray (Suc n # shape v) (es @ elems v)))"
    by blast
  show "fst (get_dataset key (snd (log_value key v w)))
          = Inr (NDArray (Suc n # shape v) (es @ elems v))"
    using s l by (intro get_dataset_holds[where root = root']) auto
next
  assume a: "vs \<noteq> [] \<and> (\<forall>v \<in> set vs. shape v = rs) \<and> absent w key"
  from log_values_absent[of vs rs w key] a obtain root' ops m where
    s: "log_values key vs w = (None, \<lparr>disk = Some root', opens = ops\<rparr>)"
    and l: "h5_lookup root' (h5_path key)
              = Some (Dataset m (NDArray (length vs # rs) (concat (map elems vs))))"
    by blast
  from s show "fst (log_values key vs w) = None" by simp
  show "fst (get_dataset key (snd (log_values key vs w)))
          = Inr (NDArray (length vs # rs) (concat (map elems vs)))"
    using s l by (intro get_dataset_holds[where root = root']) auto
qed

text \<open>
  Claim C8, as stated, is about every key and every value. It fails where the key holds
  records of another shape: a value of shape \<^verbatim>\<open>(3,)\<close> after one of shape
  \<^verbatim>\<open>(2,)\<close> raises \<^verbatim>\<open>TypeError\<close> and leaves a record of zeros; a scalar is
  broadcast, and the last record is not the scalar.
\<close>

theorem log_value_shape_mismatch:
  "fst (log_value ''k'' (NDArray [3] [7, 8, 9]) world_k) = Some TypeError
   \<and> fst (get_dataset ''k'' (snd (log_value ''k'' (NDArray [3] [7, 8, 9]) world_k)))
       = Inr (NDArray [2, 2] [5, 6, 0, 0])
   \<and> last_record (NDArray [2, 2] [5, 6, 0, 0 :: int]) \<noteq> Some (NDArray [3] [7, 8, 9])
   \<and> fst (log_value ''k'' (NDArray [] [7]) world_k) = None
   \<and> fst (get_dataset ''k'' (snd (log_value ''k'' (NDArray [] [7]) world_k)))
       = Inr (NDArray [2, 2] [5, 6, 7, 7])
   \<and> last_record (NDArray [2, 2] [5, 6, 7, 7 :: int]) \<noteq> Some (NDArray [] [7])"
  by code_simp

theorem log_value_round_trip_witness:
  "wf_array (NDArray [2] [5, 6 :: int]) \<and> writable world_k ''k'' [2] \<and>
   fst (log_value ''k'' (NDArray [2] [5, 6]) world_k) = None \<and>
   (\<exists>a. fst (get_dataset ''k'' (snd (log_value ''k'' (NDArray [2] [5, 6]) world_k))) = Inr a
         \<and> last_record a = Some (NDArray [2] [5, 6])) \<and>
   fst (get_dataset ''k'' (snd (log_value ''k'' (NDArray [2] [7, 8]) world_k)))
     = Inr (NDArray [2, 2] [5, 6, 7, 8]) \<and>
   absent world0 ''k'' \<and>
   fst (log_values ''k'' [NDArray [2] [5, 6], NDArray [2] [7, 8], NDArray [2] [9, 10]] world0) = None \<and>
   fst (get_dataset ''k''
          (snd (log_values ''k'' [NDArray [2] [5, 6], NDArray [2] [7, 8], NDArray [2] [9, 10]] world0)))
     = Inr (NDArray [3, 2] [5, 6, 7, 8, 9, 10])"
proof -
  let ?r = "Group [(''k'', Dataset (Some [None, Some 2]) (NDArray [1, 2] [5, 6 :: int]))]"
  let ?vs = "[NDArray [2] [5, 6 :: int], NDArray [2] [7, 8], NDArray [2] [9, 10]]"
  have a: "wf_array (NDArray [2] [5, 6 :: int]) \<and> writable world_k ''k'' (shape (NDArray [2] [5, 6 :: int]))"
    by code_simp
  have b: "disk world_k = Some ?r \<and>
           h5_lookup ?r (h5_path ''k'')
             = Some (Dataset (Some (None # [Some 2])) (NDArray (1 # shape (NDArray [2] [7, 8 :: int])) [5, 6]))"
    by code_simp
  have c: "?vs \<noteq> [] \<and> (\<forall>v \<in> set ?vs. shape v = [2]) \<and> absent world0 ''k''"
    by code_simp
  note r1 = log_value_round_trip[of "NDArray [2] [5, 6]" world_k "''k''" ?r "[Some 2]" 1 "[5, 6]" ?vs "[2]",
              THEN conjunct1, THEN mp, OF a]
  note r2 = log_value_round_trip[of "NDArray [2] [7, 8]" world_k "''k''" ?r "[Some 2]" 1 "[5, 6]" ?vs "[2]",
              THEN conjunct2, THEN conjunct1, THEN mp, OF b]
  note r3 = log_value_round_trip[of "NDArray [2] [5, 6]" world0 "''k''" ?r "[Some 2]" 1 "[5, 6]" ?vs "[2]",
              THEN conjunct2, THEN conjunct2, THEN mp, OF c]
  show ?thesis using a c r1 r2 r3 by simp
qed

section \<open>\<^verbatim>\<open>get_unique_key\<close>\<close>

text \<open>
  \<^verbatim>\<open>
  def check_key(self, key):
      return check_if_in_h5(self.filename, key)

  def get_unique_key(self, base_key):
      counter = 0
      key = base_key
      if base_key.endswith("/"):
          base_key = base_key[:-1]
          suffix = "/"
      else:
          suffix = ""
      while self.check_key(key):
          counter += 1
          key = f"{base_key}_{counter}{suffix}"
      return key
  \<close>
  The f-string is \<open>key_candidate\<close>. A key is present when the file is on disk and
  the key names an object in it. The loop ends because the file holds finitely many names
  and the candidates are pairwise different.
\<close>

definition key_candidate :: "string \<Rightarrow> string \<Rightarrow> nat \<Rightarrow> string" where
  "key_candidate base_key suffix counter = base_key @ ''_'' @ str_nat counter @ suffix"

definition present :: "'a world \<Rightarrow> string \<Rightarrow> bool" where
  "present w key = (case disk w of None \<Rightarrow> False | Some root \<Rightarrow> h5_lookup root (h5_path key) \<noteq> None)"

definition key_comp :: "string \<Rightarrow> string \<Rightarrow> nat \<Rightarrow> string" where
  "key_comp base_key suffix n =
     last (split_sep (CHR ''/'') base_key) @ ''_'' @ str_nat n @ hd (split_sep (CHR ''/'') suffix)"

lemma finite_h5_names: "finite (h5_names t)"
  by (induction t rule: h5_names.induct) auto

lemma h5_lookup_names: "h5_lookup t cs = Some x \<Longrightarrow> set cs \<subseteq> h5_names t"
proof (induction t cs rule: h5_lookup.induct)
  case (3 kids c cs)
  then obtain k where k: "map_of kids c = Some k" "h5_lookup k cs = Some x"
    by (auto split: option.splits)
  from k(1) have m: "(c, k) \<in> set kids" by (rule map_of_SomeD)
  then have "h5_names k \<subseteq> h5_names (Group kids)" by force
  moreover have "c \<in> h5_names (Group kids)" using m by force
  ultimately show ?case using 3 k by auto
qed auto

lemma key_comp_in_split:
  "key_comp base_key suffix n \<in> set (split_sep (CHR ''/'') (key_candidate base_key suffix n))"
proof -
  have m: "split_sep (CHR ''/'') (''_'' @ str_nat n) = [''_'' @ str_nat n]"
    by (rule split_sep_no_sep) (use str_nat_no_slash in auto)
  have "key_candidate base_key suffix n = base_key @ ((''_'' @ str_nat n) @ suffix)"
    by (simp add: key_candidate_def)
  then show ?thesis
    unfolding key_comp_def
    by (simp only: split_sep_append[of _ base_key] split_sep_append[of _ "''_'' @ str_nat n" suffix] m) simp
qed

lemma key_comp_inj: "inj (key_comp base_key suffix)"
  by (rule injI) (auto simp: key_comp_def dest: str_nat_inj)

lemma key_comp_plain: "key_comp base_key suffix n \<noteq> [] \<and> key_comp base_key suffix n \<noteq> ''.''"
proof -
  have "CHR ''_'' \<in> set (key_comp base_key suffix n)" by (simp add: key_comp_def)
  then show ?thesis by auto
qed

lemma present_key_names:
  assumes "present w (key_candidate base_key suffix n)" "disk w = Some root"
  shows "key_comp base_key suffix n \<in> h5_names root"
proof -
  from assms obtain x where "h5_lookup root (h5_path (key_candidate base_key suffix n)) = Some x"
    by (auto simp: present_def)
  then have "set (h5_path (key_candidate base_key suffix n)) \<subseteq> h5_names root"
    by (rule h5_lookup_names)
  moreover have "key_comp base_key suffix n \<in> set (h5_path (key_candidate base_key suffix n))"
    using key_comp_in_split key_comp_plain by (simp add: h5_path_def)
  ultimately show ?thesis by auto
qed

lemma finite_present_candidates: "finite {n. present w (key_candidate base_key suffix n)}"
proof (cases "disk w")
  case None
  then show ?thesis by (simp add: present_def)
next
  case (Some root)
  have "finite (key_comp base_key suffix -` h5_names root)"
    by (intro finite_vimageI finite_h5_names key_comp_inj)
  moreover have "{n. present w (key_candidate base_key suffix n)} \<subseteq> key_comp base_key suffix -` h5_names root"
    using present_key_names[OF _ Some] by auto
  ultimately show ?thesis by (rule rev_finite_subset)
qed

lemma check_key_True:
  assumes "check_key G w key = (Inr True, w')"
  shows "present w key \<and> disk w' = disk w \<and> ''os'' \<in> set G"
  using assms
  by (auto simp: check_key_def check_if_in_h5_def open_read_def present_def
           split: if_splits option.splits)

lemma present_disk: "disk w' = disk w \<Longrightarrow> present w' k = present w k"
  by (simp add: present_def)

function unique_key_loop ::
  "string list \<Rightarrow> 'a world \<Rightarrow> string \<Rightarrow> string \<Rightarrow> nat \<Rightarrow> string \<Rightarrow> (error + string) \<times> 'a world" where
  "unique_key_loop G w base_key suffix counter key =
     (case check_key G w key of
        (Inl e, w') \<Rightarrow> (Inl e, w')
      | (Inr False, w') \<Rightarrow> (Inr key, w')
      | (Inr True, w') \<Rightarrow>
          unique_key_loop G w' base_key suffix (counter + 1)
            (key_candidate base_key suffix (counter + 1)))"
  by pat_completeness auto
termination
proof (relation "measure (\<lambda>(G, w, base_key, suffix, counter, key).
          card {n. counter < n \<and> present w (key_candidate base_key suffix n)}
          + (if present w key then 1 else 0))")
  show "wf (measure (\<lambda>(G, w, base_key, suffix, counter, key).
          card {n. counter < n \<and> present w (key_candidate base_key suffix n)}
          + (if present w key then 1 else 0)))"
    by simp
next
  fix G and w w' :: "'a world" and base_key suffix and counter :: nat and key x b
  assume "(x, w') = check_key G w key" "x = Inr b" "b = True"
  then have ck: "check_key G w key = (Inr True, w')" by simp
  from check_key_True[OF ck] have p: "present w key" and d: "disk w' = disk w" by auto
  let ?A = "\<lambda>c. {n. c < n \<and> present w (key_candidate base_key suffix n)}"
  have fin: "finite (?A counter)"
    using finite_present_candidates[of w base_key suffix] by (rule rev_finite_subset) auto
  have split: "?A counter = ?A (counter + 1) \<union>
                 (if present w (key_candidate base_key suffix (counter + 1)) then {counter + 1} else {})"
    by (auto simp: less_Suc_eq Suc_lessI intro: Suc_lessI) 
  have "card (?A (counter + 1))
          + (if present w (key_candidate base_key suffix (counter + 1)) then 1 else 0)
        = card (?A counter)"
  proof (cases "present w (key_candidate base_key suffix (counter + 1))")
    case True
    have "counter + 1 \<notin> ?A (counter + 1)" by simp
    moreover have "finite (?A (counter + 1))" using fin by (rule rev_finite_subset) auto
    moreover have "?A counter = insert (counter + 1) (?A (counter + 1))" using split True by auto
    ultimately show ?thesis using True by simp
  next
    case False
    then show ?thesis using split by simp
  qed
  then show "((G, w', base_key, suffix, counter + 1, key_candidate base_key suffix (counter + 1)),
              G, w, base_key, suffix, counter, key)
       \<in> measure (\<lambda>(G, w, base_key, suffix, counter, key).
          card {n. counter < n \<and> present w (key_candidate base_key suffix n)}
          + (if present w key then 1 else 0))"
    using p by (simp add: present_disk[OF d])
qed

declare unique_key_loop.simps [simp del]

definition get_unique_key :: "string list \<Rightarrow> 'a world \<Rightarrow> string \<Rightarrow> (error + string) \<times> 'a world" where
  "get_unique_key G w base_key =
     (let counter = 0;
          key = base_key;
          (base_key, suffix) =
             (if base_key \<noteq> [] \<and> last base_key = CHR ''/'' then (butlast base_key, ''/'')
              else (base_key, []))
      in unique_key_loop G w base_key suffix counter key)"

text \<open>
  The base key without its trailing separator, and that separator.
\<close>

definition key_stem :: "string \<Rightarrow> string" where
  "key_stem b = (if b \<noteq> [] \<and> last b = CHR ''/'' then butlast b else b)"

definition key_suffix :: "string \<Rightarrow> string" where
  "key_suffix b = (if b \<noteq> [] \<and> last b = CHR ''/'' then ''/'' else [])"

text \<open>
  The candidate of UniqueNamer in the words of the specification: the counter in
  parentheses, before the extension.
\<close>

definition namer_candidate :: "string \<Rightarrow> nat \<Rightarrow> string" where
  "namer_candidate p n = (let (name, ext) = splitext p in name @ ''('' @ str_nat n @ '')'' @ ext)"

definition world_run :: "int world" where
  "world_run = \<lparr>disk = Some (Group [(''run'', Group [])]), opens = []\<rparr>"

definition world_runs :: "int world" where
  "world_runs = \<lparr>disk = Some (Group [(''run'', Group []), (''run_1'', Group [])]), opens = []\<rparr>"

lemma check_key_os:
  assumes "''os'' \<in> set G"
  shows "\<exists>w'. check_key G w key = (Inr (present w key), w') \<and> disk w' = disk w"
  using assms
  by (auto simp: check_key_def check_if_in_h5_def open_read_def present_def split: option.splits)

lemma unique_key_loop_least:
  assumes "''os'' \<in> set G"
  shows "\<exists>k w'. unique_key_loop G w base_key suffix c key = (Inr k, w') \<and> disk w' = disk w
           \<and> \<not> present w k
           \<and> (\<not> present w key \<longrightarrow> k = key)
           \<and> (present w key \<longrightarrow>
                (\<exists>n > c. k = key_candidate base_key suffix n
                   \<and> (\<forall>m. c < m \<and> m < n \<longrightarrow> present w (key_candidate base_key suffix m))))"
  using assms
proof (induction G w base_key suffix c key rule: unique_key_loop.induct)
  case (1 G w base_key suffix counter key)
  from check_key_os[OF "1.prems", of w key] obtain w1 where
    ck: "check_key G w key = (Inr (present w key), w1)" and d1: "disk w1 = disk w" by blast
  show ?case
  proof (cases "present w key")
    case False
    with ck d1 show ?thesis by (subst unique_key_loop.simps) simp
  next
    case True
    let ?next = "key_candidate base_key suffix (counter + 1)"
    have u: "unique_key_loop G w base_key suffix counter key
               = unique_key_loop G w1 base_key suffix (counter + 1) ?next"
      using ck True by (subst unique_key_loop.simps) simp
    from ck True have ck': "(Inr True, w1) = check_key G w key" by simp
    from "1.IH"[OF ck' refl refl "1.prems"] obtain k w' where
      r: "unique_key_loop G w1 base_key suffix (counter + 1) ?next = (Inr k, w')"
      and d: "disk w' = disk w1" and f: "\<not> present w1 k"
      and a: "\<not> present w1 ?next \<longrightarrow> k = ?next"
      and b: "present w1 ?next \<longrightarrow>
                (\<exists>n > counter + 1. k = key_candidate base_key suffix n
                   \<and> (\<forall>m. counter + 1 < m \<and> m < n \<longrightarrow> present w1 (key_candidate base_key suffix m)))"
      by blast
    have pw: "present w1 x = present w x" for x using d1 by (rule present_disk)
    have "\<exists>n > counter. k = key_candidate base_key suffix n
            \<and> (\<forall>m. counter < m \<and> m < n \<longrightarrow> present w (key_candidate base_key suffix m))"
    proof (cases "present w ?next")
      case False
      with a pw have "k = ?next" by simp
      then show ?thesis by (intro exI[of _ "counter + 1"]) auto
    next
      case T: True
      with b pw obtain n where n: "n > counter + 1" "k = key_candidate base_key suffix n"
        "\<forall>m. counter + 1 < m \<and> m < n \<longrightarrow> present w (key_candidate base_key suffix m)"
        by auto
      have "\<forall>m. counter < m \<and> m < n \<longrightarrow> present w (key_candidate base_key suffix m)"
      proof (intro allI impI)
        fix m assume "counter < m \<and> m < n"
        then have "m = counter + 1 \<or> (counter + 1 < m \<and> m < n)" by arith
        with T n(3) show "present w (key_candidate base_key suffix m)" by auto
      qed
      with n show ?thesis by (intro exI[of _ n]) auto
    qed
    with u r d d1 f pw True show ?thesis by auto
  qed
qed

text \<open>
  What the loop would do in a module where \<^verbatim>\<open>os\<close> is bound: for every non-empty
  base key it returns a key that is not present, the base key itself when that is not
  present, and otherwise the base key, without its trailing separator, followed by an
  underscore, the least counter from 1 on whose candidate is not present, and the trailing
  separator if the base key had one.
\<close>

lemma get_unique_key_counter:
  "''os'' \<in> set G \<and> base_key \<noteq> [] \<longrightarrow>
     (\<exists>k. fst (get_unique_key G w base_key) = Inr k
        \<and> \<not> present w k
        \<and> (\<not> present w base_key \<longrightarrow> k = base_key)
        \<and> (present w base_key \<longrightarrow>
             (\<exists>n \<ge> 1. k = key_stem base_key @ ''_'' @ str_nat n @ key_suffix base_key
                \<and> (\<forall>m. 1 \<le> m \<and> m < n \<longrightarrow>
                      present w (key_stem base_key @ ''_'' @ str_nat m @ key_suffix base_key))))
        \<and> (last base_key = CHR ''/'' \<longrightarrow> last k = CHR ''/''))"
proof
  assume h: "''os'' \<in> set G \<and> base_key \<noteq> []"
  let ?s = "key_stem base_key" and ?x = "key_suffix base_key"
  have g: "get_unique_key G w base_key = unique_key_loop G w ?s ?x 0 base_key"
    by (simp add: get_unique_key_def key_stem_def key_suffix_def)
  from unique_key_loop_least[of G w ?s ?x 0 base_key] h obtain k w' where
    r: "unique_key_loop G w ?s ?x 0 base_key = (Inr k, w')" and f: "\<not> present w k"
    and a: "\<not> present w base_key \<longrightarrow> k = base_key"
    and b: "present w base_key \<longrightarrow>
              (\<exists>n > 0. k = key_candidate ?s ?x n
                 \<and> (\<forall>m. 0 < m \<and> m < n \<longrightarrow> present w (key_candidate ?s ?x m)))"
    by blast
  have b': "present w base_key \<longrightarrow>
             (\<exists>n \<ge> 1. k = ?s @ ''_'' @ str_nat n @ ?x
                \<and> (\<forall>m. 1 \<le> m \<and> m < n \<longrightarrow> present w (?s @ ''_'' @ str_nat m @ ?x)))"
  proof
    assume "present w base_key"
    with b obtain n where n: "n > 0" "k = key_candidate ?s ?x n"
      "\<forall>m. 0 < m \<and> m < n \<longrightarrow> present w (key_candidate ?s ?x m)" by blast
    then show "\<exists>n \<ge> 1. k = ?s @ ''_'' @ str_nat n @ ?x
                \<and> (\<forall>m. 1 \<le> m \<and> m < n \<longrightarrow> present w (?s @ ''_'' @ str_nat m @ ?x))"
      by (intro exI[of _ n]) (auto simp: key_candidate_def)
  qed
  have c: "last base_key = CHR ''/'' \<longrightarrow> last k = CHR ''/''"
  proof
    assume l: "last base_key = CHR ''/''"
    show "last k = CHR ''/''"
    proof (cases "present w base_key")
      case False
      with a l show ?thesis by simp
    next
      case True
      with b' obtain n where "k = ?s @ ''_'' @ str_nat n @ ?x" by blast
      moreover have "?x = ''/''" using h l by (simp add: key_suffix_def)
      ultimately show ?thesis by simp
    qed
  qed
  from g r f a b' c
  show "\<exists>k. fst (get_unique_key G w base_key) = Inr k
        \<and> \<not> present w k
        \<and> (\<not> present w base_key \<longrightarrow> k = base_key)
        \<and> (present w base_key \<longrightarrow>
             (\<exists>n \<ge> 1. k = key_stem base_key @ ''_'' @ str_nat n @ key_suffix base_key
                \<and> (\<forall>m. 1 \<le> m \<and> m < n \<longrightarrow>
                      present w (key_stem base_key @ ''_'' @ str_nat m @ key_suffix base_key))))
        \<and> (last base_key = CHR ''/'' \<longrightarrow> last k = CHR ''/'')"
    by (intro exI[of _ k]) simp
qed

text \<open>
  With \<^verbatim>\<open>os\<close> bound and the key \<^verbatim>\<open>run\<close> taken, the result is
  \<^verbatim>\<open>run_1\<close>; the candidate of UniqueNamer in the specification is
  \<^verbatim>\<open>run(1)\<close>, that of \<^verbatim>\<open>get_unique_filename\<close> is \<^verbatim>\<open>run(1).\<close>.
\<close>

lemma get_unique_key_not_namer:
  "fst (get_unique_key (''os'' # utils_globals) world_run ''run'') = Inr ''run_1''
   \<and> namer_candidate ''run'' 1 = ''run(1)''
   \<and> candidate (fst (splitext ''run'')) (snd (splitext ''run'')) 1 = ''run(1).''
   \<and> fst (get_unique_key utils_globals world_run ''run'') = Inl NameError"
  by code_simp

lemma world_runs_eval:
  "fst (get_unique_key (''os'' # utils_globals) world_runs ''run/'') = Inr ''run_2/''"
  "present world_runs ''run/''" "present world_runs ''run_1/''" "\<not> present world_runs ''run_2/''"
  by code_simp+

lemma get_unique_key_counter_instance:
  "''os'' \<in> set (''os'' # utils_globals) \<and> ''run/'' \<noteq> [] \<and> present world_runs ''run/'' \<and>
   (\<exists>k. fst (get_unique_key (''os'' # utils_globals) world_runs ''run/'') = Inr k
      \<and> \<not> present world_runs k \<and> last k = CHR ''/''
      \<and> (\<exists>n \<ge> 1. k = key_stem ''run/'' @ ''_'' @ str_nat n @ key_suffix ''run/''))"
proof -
  have h: "''os'' \<in> set (''os'' # utils_globals) \<and> ''run/'' \<noteq> []" by simp
  from get_unique_key_counter[of "''os'' # utils_globals" "''run/''" world_runs, THEN mp, OF h]
  obtain k where k: "fst (get_unique_key (''os'' # utils_globals) world_runs ''run/'') = Inr k"
    "\<not> present world_runs k"
    "present world_runs ''run/'' \<longrightarrow>
       (\<exists>n \<ge> 1. k = key_stem ''run/'' @ ''_'' @ str_nat n @ key_suffix ''run/''
          \<and> (\<forall>m. 1 \<le> m \<and> m < n \<longrightarrow>
                present world_runs (key_stem ''run/'' @ ''_'' @ str_nat m @ key_suffix ''run/'')))"
    "last ''run/'' = CHR ''/'' \<longrightarrow> last k = CHR ''/''"
    by blast
  have p: "present world_runs ''run/''" by (rule world_runs_eval)
  from k(4) have "last k = CHR ''/''" by simp
  moreover from k(3) p have "\<exists>n \<ge> 1. k = key_stem ''run/'' @ ''_'' @ str_nat n @ key_suffix ''run/''"
    by blast
  ultimately show ?thesis using h p k(1,2) by blast
qed

lemma check_key_shipped: "check_key utils_globals w key = (Inl NameError, w)"
  by (simp add: check_key_def check_if_in_h5_def utils_globals_def)

lemma unique_key_loop_shipped:
  "unique_key_loop utils_globals w b s n key = (Inl NameError, w)"
  by (subst unique_key_loop.simps) (simp add: check_key_shipped)

lemma get_unique_key_shipped: "get_unique_key utils_globals w base_key = (Inl NameError, w)"
  by (simp add: get_unique_key_def unique_key_loop_shipped)

text \<open>
  Claim C6. For every base key \<^verbatim>\<open>get_unique_key\<close> should return a key made by the
  suffixing strategy of UniqueNamer, a trailing separator preserved. In the module as it
  is, \<^verbatim>\<open>os\<close> is not bound: the first existence check raises \<^verbatim>\<open>NameError\<close>,
  for every base key and every log file, before the file is opened, and no key is
  returned.
\<close>

theorem get_unique_key_name_error:
  "get_unique_key utils_globals w base_key = (Inl NameError, w)
   \<and> fst (get_unique_key utils_globals world_run ''run/'') \<noteq> Inr ''run_1/''"
  by (simp add: get_unique_key_shipped)

section \<open>\<^verbatim>\<open>tqdm_joblib\<close>\<close>

text \<open>
  \<^verbatim>\<open>
  @contextlib.contextmanager
  def tqdm_joblib(tqdm_object):
      class TqdmBatchCompletionCallback(joblib.parallel.BatchCompletionCallBack):
          def __call__(self, *args, **kwargs):
              tqdm_object.update(n=self.batch_size)
              return super().__call__(*args, **kwargs)

      old_batch_callback = joblib.parallel.BatchCompletionCallBack
      joblib.parallel.BatchCompletionCallBack = TqdmBatchCompletionCallback
      try:
          yield tqdm_object
      finally:
          joblib.parallel.BatchCompletionCallBack = old_batch_callback
          tqdm_object.close()
  \<close>
  The state is the global \<^verbatim>\<open>joblib.parallel.BatchCompletionCallBack\<close> and the progress
  bar. The body of the \<^verbatim>\<open>with\<close> statement runs at the \<^verbatim>\<open>yield\<close>; it may call
  the callback, assign the global, and raise. The subclass made on entry calls the class
  it found there. A \<^verbatim>\<open>finally\<close> block runs after its \<^verbatim>\<open>try\<close> block however
  that ends; an exception of its own replaces the pending one.
\<close>

datatype callback = BatchCompletionCallBack | TqdmBatchCompletionCallback callback

record tqdm =
  bar_n :: nat
  bar_closed :: bool

record process =
  batch_callback :: callback
  tqdm_object :: tqdm

fun invoke :: "callback \<Rightarrow> nat \<Rightarrow> process \<Rightarrow> process" where
  "invoke BatchCompletionCallBack batch_size s = s"
| "invoke (TqdmBatchCompletionCallback super) batch_size s =
     invoke super batch_size
       (s\<lparr>tqdm_object := (tqdm_object s)\<lparr>bar_n := bar_n (tqdm_object s) + batch_size\<rparr>\<rparr>)"

definition try_finally ::
  "('s \<Rightarrow> error option \<times> 's) \<Rightarrow> ('s \<Rightarrow> error option \<times> 's) \<Rightarrow> 's \<Rightarrow> error option \<times> 's" where
  "try_finally body final s =
     (case body s of
        (e, s1) \<Rightarrow> (case final s1 of (Some e', s2) \<Rightarrow> (Some e', s2) | (None, s2) \<Rightarrow> (e, s2)))"

definition tqdm_joblib :: "(process \<Rightarrow> error option \<times> process) \<Rightarrow> process \<Rightarrow> error option \<times> process" where
  "tqdm_joblib body s =
     (let old_batch_callback = batch_callback s;
          s1 = s\<lparr>batch_callback := TqdmBatchCompletionCallback old_batch_callback\<rparr>
      in try_finally body
           (\<lambda>s2. let s3 = s2\<lparr>batch_callback := old_batch_callback\<rparr>
                 in (None, s3\<lparr>tqdm_object := (tqdm_object s3)\<lparr>bar_closed := True\<rparr>\<rparr>))
           s1)"

text \<open>
  Claim C10. After the context manager exits, whether the body completed normally or
  raised, and whatever the body did to the global, the global callback class is the one
  found on entry and the progress bar is closed; the body's exception, if any, is the
  one the \<^verbatim>\<open>with\<close> statement raises.
\<close>

theorem tqdm_joblib_restores:
  "batch_callback (snd (tqdm_joblib body s)) = batch_callback s
   \<and> bar_closed (tqdm_object (snd (tqdm_joblib body s)))
   \<and> fst (tqdm_joblib body s)
       = fst (body (s\<lparr>batch_callback := TqdmBatchCompletionCallback (batch_callback s)\<rparr>))"
  by (simp add: tqdm_joblib_def try_finally_def Let_def split: prod.splits option.splits)

text \<open>
  Two bodies: one reports two batches and completes, one reports a batch, replaces the
  global by a subclass of its own and raises.
\<close>

definition process0 :: process where
  "process0 = \<lparr>batch_callback = BatchCompletionCallBack, tqdm_object = \<lparr>bar_n = 0, bar_closed = False\<rparr>\<rparr>"

definition body_ok :: "process \<Rightarrow> error option \<times> process" where
  "body_ok s = (None, invoke (batch_callback s) 2 (invoke (batch_callback s) 3 s))"

definition body_raises :: "process \<Rightarrow> error option \<times> process" where
  "body_raises s =
     (Some ValueError,
      (invoke (batch_callback s) 4 s)\<lparr>batch_callback := TqdmBatchCompletionCallback (batch_callback s)\<rparr>)"

lemma tqdm_joblib_examples:
  "tqdm_joblib body_ok process0
     = (None, \<lparr>batch_callback = BatchCompletionCallBack, tqdm_object = \<lparr>bar_n = 5, bar_closed = True\<rparr>\<rparr>)"
  "tqdm_joblib body_raises process0
     = (Some ValueError,
        \<lparr>batch_callback = BatchCompletionCallBack, tqdm_object = \<lparr>bar_n = 4, bar_closed = True\<rparr>\<rparr>)"
  by code_simp+

end
